theory Spec2Isabelle
  imports Complex_Main "HOL-Library.Char_ord" "HOL-Library.List_Lexorder"
begin

section \<open>Values\<close>

text \<open>
  The documents are what \<^verbatim>\<open>JSON.parse\<close> returns. A number is held as the text that
  \<^verbatim>\<open>JSON.stringify\<close> prints for it (that text determines a finite number up to the sign
  of zero, and both zeros print as 0); an object is the list of its properties in
  property order. A string is the list of its UTF-16 code units, of which the model has
  those below 256. \<open>None\<close> of \<open>jsval\<close> is \<^verbatim>\<open>undefined\<close>.
\<close>

datatype json =
    JNull
  | JBool bool
  | JNum string
  | JStr string
  | JArr "json list"
  | JObj "(string \<times> json) list"

type_synonym jsval = "json option"

datatype error = TypeError | RangeError | SyntaxError | SystemError string

text \<open>Truthiness, as \<^verbatim>\<open>&&\<close> and \<^verbatim>\<open>!\<close> test it.\<close>

fun truthy :: "jsval \<Rightarrow> bool" where
  "truthy None = False"
| "truthy (Some JNull) = False"
| "truthy (Some (JBool b)) = b"
| "truthy (Some (JNum n)) = (n \<noteq> ''0'')"
| "truthy (Some (JStr s)) = (s \<noteq> [])"
| "truthy (Some (JArr xs)) = True"
| "truthy (Some (JObj kvs)) = True"

text \<open>\<^verbatim>\<open>x == null\<close>: true of \<^verbatim>\<open>null\<close> and of \<^verbatim>\<open>undefined\<close>.\<close>

fun nullish :: "jsval \<Rightarrow> bool" where
  "nullish None = True"
| "nullish (Some JNull) = True"
| "nullish (Some v) = False"

text \<open>
  Reading a property \<^verbatim>\<open>x.name\<close> of a value that is neither \<^verbatim>\<open>null\<close> nor
  \<^verbatim>\<open>undefined\<close>, for the names the loader reads (library, identifier, id, version):
  only an object can have them.
\<close>

fun property :: "json \<Rightarrow> string \<Rightarrow> jsval" where
  "property (JObj kvs) name = map_of kvs name"
| "property v name = None"

subsection \<open>JSON.stringify\<close>

definition hex_digit :: "nat \<Rightarrow> char" where
  "hex_digit n = ''0123456789abcdef'' ! (n mod 16)"

definition escape_char :: "char \<Rightarrow> string" where
  "escape_char c =
     (if c = CHR 0x22 then [CHR 0x5C, CHR 0x22]
      else if c = CHR 0x5C then [CHR 0x5C, CHR 0x5C]
      else if c = CHR 0x08 then [CHR 0x5C, CHR ''b'']
      else if c = CHR 0x0C then [CHR 0x5C, CHR ''f'']
      else if c = CHR 0x0A then [CHR 0x5C, CHR ''n'']
      else if c = CHR 0x0D then [CHR 0x5C, CHR ''r'']
      else if c = CHR 0x09 then [CHR 0x5C, CHR ''t'']
      else if (of_char c :: nat) < 32
        then [CHR 0x5C, CHR ''u'', CHR ''0'', CHR ''0'',
              hex_digit (of_char c div 16), hex_digit (of_char c)]
      else [c])"

definition quote :: "string \<Rightarrow> string" where
  "quote s = CHR 0x22 # concat (map escape_char s) @ [CHR 0x22]"

fun join_comma :: "string list \<Rightarrow> string" where
  "join_comma [] = []"
| "join_comma [s] = s"
| "join_comma (s # t # ss) = s @ '','' @ join_comma (t # ss)"

fun JSON_stringify :: "json \<Rightarrow> string" where
  "JSON_stringify JNull = ''null''"
| "JSON_stringify (JBool b) = (if b then ''true'' else ''false'')"
| "JSON_stringify (JNum n) = n"
| "JSON_stringify (JStr s) = quote s"
| "JSON_stringify (JArr xs) = ''['' @ join_comma (map JSON_stringify xs) @ '']''"
| "JSON_stringify (JObj kvs) =
     ''{'' @ join_comma (map (\<lambda>(k, v). quote k @ '':'' @ JSON_stringify v) kvs) @ ''}''"

section \<open>Map\<close>

text \<open>
  A JavaScript \<^verbatim>\<open>Map\<close> keeps its entries in insertion order, one per key; \<^verbatim>\<open>set\<close> on a
  key it has replaces the value where the entry stands, and on a new key appends.
  Keys are compared as values, which is how \<^verbatim>\<open>Map\<close> compares \<^verbatim>\<open>undefined\<close>,
  \<^verbatim>\<open>null\<close>, booleans, numbers and strings. \<^verbatim>\<open>Map\<close> compares objects and arrays by
  identity, which the values do not carry: the model takes two equal ones for the same
  key and so follows the code for an id or a version of that kind only where the key is
  the very object that was stored. What is proved of two documents under one key is
  stated for primitive keys.
\<close>

type_synonym ('k, 'v) js_map = "('k \<times> 'v) list"

definition Map_get :: "'k \<Rightarrow> ('k, 'v) js_map \<Rightarrow> 'v option" where
  "Map_get k m = map_of m k"

fun Map_set :: "'k \<Rightarrow> 'v \<Rightarrow> ('k, 'v) js_map \<Rightarrow> ('k, 'v) js_map" where
  "Map_set k v [] = [(k, v)]"
| "Map_set k v ((k', v') # m) = (if k' = k then (k, v) # m else (k', v') # Map_set k v m)"

definition Map_keys :: "('k, 'v) js_map \<Rightarrow> 'k list" where
  "Map_keys m = map fst m"

definition Map_values :: "('k, 'v) js_map \<Rightarrow> 'v list" where
  "Map_values m = map snd m"

definition Map_size :: "('k, 'v) js_map \<Rightarrow> nat" where
  "Map_size m = length m"

section \<open>The process state\<close>

text \<open>
  What the console receives, with the values the message interpolates.
\<close>

datatype message =
    Multiple_copies jsval jsval
  | Failed_to_resolve_library jsval jsval
  | Failed_to_resolve_latest jsval
  | Failed_to_load string
  | Error_checking_modification_time error
  | Libraries_changed real
  | Reloaded_libraries nat
  | Reloaded_library jsval jsval

datatype line = Console_error message | Console_log message

type_synonym addr = nat
type_synonym time = real
type_synonym store = "(jsval, (jsval, json) js_map) js_map"

text \<open>
  \<open>objects\<close> holds the \<^verbatim>\<open>_store\<close> of every \<^verbatim>\<open>Libraries\<close> instance, by the
  instance's address, and \<open>fresh\<close> is the next address \<^verbatim>\<open>new Libraries()\<close> takes;
  \<open>repo\<close>, \<open>librariesPath\<close>, \<open>lastLoadTime\<close> and \<open>lastCheckTime\<close> are the
  module's variables. \<open>scans\<close> counts the calls of \<^verbatim>\<open>getLatestModTime\<close> that
  \<^verbatim>\<open>checkAndReloadIfNeeded\<close> has made: it observes the file system being scanned,
  and nothing reads it.
\<close>

record world =
  objects :: "addr \<Rightarrow> store"
  fresh :: addr
  repo :: addr
  librariesPath :: "string option"
  lastLoadTime :: time
  lastCheckTime :: time
  console :: "line list"
  scans :: nat

definition CHECK_INTERVAL_MS :: time where
  "CHECK_INTERVAL_MS = 1000"

section \<open>Libraries\<close>

text \<open>
  The value of \<^verbatim>\<open>json && json.library && json.library.identifier\<close> when it is truthy.
\<close>

definition library_identifier :: "json \<Rightarrow> json option" where
  "library_identifier json =
     (if \<not> truthy (Some json) then None
      else (case property json ''library'' of
              None \<Rightarrow> None
            | Some lib \<Rightarrow>
                (if \<not> truthy (Some lib) then None
                 else (case property lib ''identifier'' of
                         None \<Rightarrow> None
                       | Some ident \<Rightarrow> (if truthy (Some ident) then Some ident else None)))))"

text \<open>
  What \<^verbatim>\<open>json.library.identifier.id\<close> and \<^verbatim>\<open>json.library.identifier.version\<close> read
  behind that test; \<^verbatim>\<open>undefined\<close> when there is no identifier to read them from.
\<close>

definition identifier_id :: "json \<Rightarrow> jsval" where
  "identifier_id json =
     (case library_identifier json of None \<Rightarrow> None | Some ident \<Rightarrow> property ident ''id'')"

definition identifier_version :: "json \<Rightarrow> jsval" where
  "identifier_version json =
     (case library_identifier json of None \<Rightarrow> None | Some ident \<Rightarrow> property ident ''version'')"

text \<open>
  \<^verbatim>\<open>addLibrary(json)\<close> of the instance at \<open>this\<close>. The version map of an unseen id is
  the new, empty one; the warning is printed when the id and the version are both
  there and the two serialisations differ; the last line stores \<open>json\<close> in every case.
\<close>

definition addLibrary :: "addr \<Rightarrow> json \<Rightarrow> world \<Rightarrow> world" where
  "addLibrary this json w =
     (case library_identifier json of
        None \<Rightarrow> w
      | Some ident \<Rightarrow>
          if \<not> truthy (property ident ''id'') then w
          else
            let libId = property ident ''id'';
                libVersion = property ident ''version'';
                store = objects w this;
                versions = (case Map_get libId store of None \<Rightarrow> [] | Some vs \<Rightarrow> vs);
                warning =
                  (case Map_get libId store of
                     None \<Rightarrow> []
                   | Some vs \<Rightarrow>
                       (case Map_get libVersion vs of
                          None \<Rightarrow> []
                        | Some loadedJSON \<Rightarrow>
                            if JSON_stringify loadedJSON \<noteq> JSON_stringify json
                            then [Console_error (Multiple_copies libId libVersion)]
                            else []))
            in w\<lparr>objects := (objects w)(this := Map_set libId (Map_set libVersion json versions) store),
                 console := console w @ warning\<rparr>)"

text \<open>The document held under an id and a version: \<^verbatim>\<open>_store.get(id).get(version)\<close>.\<close>

definition stored_at :: "addr \<Rightarrow> jsval \<Rightarrow> jsval \<Rightarrow> world \<Rightarrow> json option" where
  "stored_at this id' version w =
     (case Map_get id' (objects w this) of None \<Rightarrow> None | Some versions \<Rightarrow> Map_get version versions)"

section \<open>Semantic versions\<close>

text \<open>
  Modelled from the spec: \<^verbatim>\<open>semver.gt\<close> belongs to the package semver, which is not part
  of the repository. The spec names it "semantic-version precedence (major.minor.patch,
  with pre-release and build-metadata comparison rules of semantic versioning)"; the
  definitions follow the package's strict mode: a version is a string of at most 256
  characters that, trimmed, reads v?MAJOR.MINOR.PATCH(-PRERELEASE)?(+BUILD)?, anything else
  raises TypeError; precedence compares major, minor and patch as numbers, then the
  pre-release identifiers, and ignores the build. Numeric identifiers are compared as
  natural numbers: the package compares them as JavaScript numbers, which is the same
  up to 2^53.
\<close>

datatype ident = Numeric nat | Alphanumeric string

record SemVer =
  major :: nat
  minor :: nat
  patch :: nat
  prerelease :: "ident list"
  build :: "string list"

definition MAX_LENGTH :: nat where
  "MAX_LENGTH = 256"

definition MAX_SAFE_INTEGER :: nat where
  "MAX_SAFE_INTEGER = 9007199254740991"

definition is_digit :: "char \<Rightarrow> bool" where
  "is_digit c = (CHR ''0'' \<le> c \<and> c \<le> CHR ''9'')"

definition is_letter_or_hyphen :: "char \<Rightarrow> bool" where
  "is_letter_or_hyphen c =
     ((CHR ''a'' \<le> c \<and> c \<le> CHR ''z'') \<or> (CHR ''A'' \<le> c \<and> c \<le> CHR ''Z'') \<or> c = CHR ''-'')"

definition is_space :: "char \<Rightarrow> bool" where
  "is_space c = (c \<in> set [CHR 0x09, CHR 0x0A, CHR 0x0B, CHR 0x0C, CHR 0x0D, CHR 0x20, CHR 0xA0])"

definition trim :: "string \<Rightarrow> string" where
  "trim s = rev (dropWhile is_space (rev (dropWhile is_space s)))"

text \<open>\<^verbatim>\<open>s.split(c)\<close>, and the cut of \<open>s\<close> at its first \<open>c\<close>.\<close>

fun split_from :: "char \<Rightarrow> string \<Rightarrow> string \<Rightarrow> string list" where
  "split_from c acc [] = [rev acc]"
| "split_from c acc (x # xs) =
     (if x = c then rev acc # split_from c [] xs else split_from c (x # acc) xs)"

definition split :: "char \<Rightarrow> string \<Rightarrow> string list" where
  "split c s = split_from c [] s"

fun cut_at :: "char \<Rightarrow> string \<Rightarrow> string \<times> string option" where
  "cut_at c [] = ([], None)"
| "cut_at c (x # xs) =
     (if x = c then ([], Some xs) else (case cut_at c xs of (a, b) \<Rightarrow> (x # a, b)))"

definition number_of :: "string \<Rightarrow> nat" where
  "number_of s = foldl (\<lambda>n c. 10 * n + (of_char c - 48)) 0 s"

text \<open>
  The identifiers of the grammar: numeric, 0|[1-9][0-9]*; of a pre-release, numeric or
  [0-9]*[a-zA-Z-][a-zA-Z0-9-]*; of a build, [0-9A-Za-z-]+.
\<close>

fun numeric_identifier :: "string \<Rightarrow> bool" where
  "numeric_identifier [] = False"
| "numeric_identifier (c # cs) = (if c = CHR ''0'' then cs = [] else is_digit c \<and> list_all is_digit cs)"

definition build_identifier :: "string \<Rightarrow> bool" where
  "build_identifier s = (s \<noteq> [] \<and> list_all (\<lambda>c. is_digit c \<or> is_letter_or_hyphen c) s)"

definition prerelease_identifier :: "string \<Rightarrow> bool" where
  "prerelease_identifier s =
     (numeric_identifier s \<or> (build_identifier s \<and> list_ex is_letter_or_hyphen s))"

definition to_identifier :: "string \<Rightarrow> ident" where
  "to_identifier s = (if list_all is_digit s then Numeric (number_of s) else Alphanumeric s)"

definition parse :: "string \<Rightarrow> error + SemVer" where
  "parse version =
     (if length version > MAX_LENGTH then Inl TypeError
      else
        let s = trim version;
            s' = (case s of c # cs \<Rightarrow> (if c = CHR ''v'' then cs else s) | [] \<Rightarrow> s);
            (before_build, build_part) = cut_at CHR ''+'' s';
            (main_part, prerelease_part) = cut_at CHR ''-'' before_build;
            pre = (case prerelease_part of None \<Rightarrow> [] | Some p \<Rightarrow> split CHR ''.'' p);
            bld = (case build_part of None \<Rightarrow> [] | Some b \<Rightarrow> split CHR ''.'' b)
        in (case split CHR ''.'' main_part of
              [ma, mi, pa] \<Rightarrow>
                (if numeric_identifier ma \<and> numeric_identifier mi \<and> numeric_identifier pa
                    \<and> list_all prerelease_identifier pre \<and> list_all build_identifier bld
                    \<and> number_of ma \<le> MAX_SAFE_INTEGER \<and> number_of mi \<le> MAX_SAFE_INTEGER
                    \<and> number_of pa \<le> MAX_SAFE_INTEGER
                 then Inr \<lparr>major = number_of ma, minor = number_of mi, patch = number_of pa,
                           prerelease = map to_identifier pre, build = bld\<rparr>
                 else Inl TypeError)
            | _ \<Rightarrow> Inl TypeError))"

text \<open>\<^verbatim>\<open>new SemVer(version)\<close>: anything but a string raises TypeError.\<close>

fun new_SemVer :: "jsval \<Rightarrow> error + SemVer" where
  "new_SemVer (Some (JStr s)) = parse s"
| "new_SemVer v = Inl TypeError"

fun compareIdentifiers :: "ident \<Rightarrow> ident \<Rightarrow> int" where
  "compareIdentifiers (Numeric a) (Numeric b) = (if a = b then 0 else if a < b then - 1 else 1)"
| "compareIdentifiers (Numeric a) (Alphanumeric b) = - 1"
| "compareIdentifiers (Alphanumeric a) (Numeric b) = 1"
| "compareIdentifiers (Alphanumeric a) (Alphanumeric b) = (if a = b then 0 else if a < b then - 1 else 1)"

definition compareNumbers :: "nat \<Rightarrow> nat \<Rightarrow> int" where
  "compareNumbers a b = (if a = b then 0 else if a < b then - 1 else 1)"

text \<open>\<^verbatim>\<open>a || b\<close> on numbers.\<close>

definition or_else :: "int \<Rightarrow> int \<Rightarrow> int" where
  "or_else a b = (if a \<noteq> 0 then a else b)"

definition compareMain :: "SemVer \<Rightarrow> SemVer \<Rightarrow> int" where
  "compareMain a b =
     or_else (compareNumbers (major a) (major b))
       (or_else (compareNumbers (minor a) (minor b)) (compareNumbers (patch a) (patch b)))"

fun comparePre_loop :: "ident list \<Rightarrow> ident list \<Rightarrow> int" where
  "comparePre_loop [] [] = 0"
| "comparePre_loop (a # as) [] = 1"
| "comparePre_loop [] (b # bs) = - 1"
| "comparePre_loop (a # as) (b # bs) =
     (if a = b then comparePre_loop as bs else compareIdentifiers a b)"

definition comparePre :: "SemVer \<Rightarrow> SemVer \<Rightarrow> int" where
  "comparePre a b =
     (if prerelease a \<noteq> [] \<and> prerelease b = [] then - 1
      else if prerelease a = [] \<and> prerelease b \<noteq> [] then 1
      else if prerelease a = [] \<and> prerelease b = [] then 0
      else comparePre_loop (prerelease a) (prerelease b))"

definition SemVer_compare :: "SemVer \<Rightarrow> SemVer \<Rightarrow> int" where
  "SemVer_compare a b = or_else (compareMain a b) (comparePre a b)"

text \<open>\<^verbatim>\<open>semver.gt(a, b)\<close>: both arguments are parsed, then compared.\<close>

definition semver_gt :: "jsval \<Rightarrow> jsval \<Rightarrow> error + bool" where
  "semver_gt a b =
     (case new_SemVer a of
        Inl e \<Rightarrow> Inl e
      | Inr x \<Rightarrow> (case new_SemVer b of Inl e \<Rightarrow> Inl e | Inr y \<Rightarrow> Inr (SemVer_compare x y > 0)))"

section \<open>Resolving\<close>

text \<open>
  \<^verbatim>\<open>cql.Library\<close> is a class of the package cql-execution, which is not part of the
  repository. Its constructor keeps the document as \<^verbatim>\<open>source\<close>, builds the engine's
  objects from it, which can raise, and calls \<^verbatim>\<open>libraryManager.resolve\<close> for the libraries
  that the document includes, which prints every miss and passes on what is raised
  there. It writes to no variable of the loader and to no store. The package is a
  parameter \<open>cql\<close> of the model: for a document, the repository given and the world in
  which the constructor runs, what it raises (\<open>None\<close> when it returns) and the lines that
  have been printed by then. Of the object made the model keeps the document and the
  repository.
\<close>

datatype library = Library (source: json) (manager: addr)

type_synonym engine = "json \<Rightarrow> addr \<Rightarrow> world \<Rightarrow> error option \<times> line list"

text \<open>\<^verbatim>\<open>new cql.Library(json, libraryManager)\<close>.\<close>

definition new_Library :: "engine \<Rightarrow> json \<Rightarrow> addr \<Rightarrow> world \<Rightarrow> (error + library) \<times> world" where
  "new_Library cql json libraryManager w =
     (case cql json libraryManager w of
        (raised, printed) \<Rightarrow>
          (case raised of
             None \<Rightarrow> (Inr (Library json libraryManager), w\<lparr>console := console w @ printed\<rparr>)
           | Some e \<Rightarrow> (Inl e, w\<lparr>console := console w @ printed\<rparr>)))"

text \<open>
  The loop of \<^verbatim>\<open>resolveLatest\<close> over the keys of the version map, in insertion order,
  with \<open>latestVersion\<close> as it stands.
\<close>

fun latest_of :: "jsval list \<Rightarrow> jsval \<Rightarrow> error + jsval" where
  "latest_of [] latestVersion = Inr latestVersion"
| "latest_of (version # versions) latestVersion =
     (if nullish latestVersion then latest_of versions version
      else (case semver_gt version latestVersion of
              Inl e \<Rightarrow> Inl e
            | Inr gt \<Rightarrow> latest_of versions (if gt then version else latestVersion)))"

text \<open>
  \<^verbatim>\<open>resolve\<close> and \<^verbatim>\<open>resolveLatest\<close> call each other. The first argument is the
  number of frames the call stack still takes: a call made when none is left raises
  RangeError, as the engine does when the stack is exhausted.
\<close>

fun resolve :: "engine \<Rightarrow> nat \<Rightarrow> addr \<Rightarrow> jsval \<Rightarrow> jsval \<Rightarrow> world \<Rightarrow> (error + library option) \<times> world"
  and resolveLatest :: "engine \<Rightarrow> nat \<Rightarrow> addr \<Rightarrow> jsval \<Rightarrow> world \<Rightarrow> (error + library option) \<times> world"
where
  "resolve cql 0 this id' version w = (Inl RangeError, w)"
| "resolve cql (Suc depth) this id' version w =
     (if nullish version then resolveLatest cql depth this id' w
      else (case Map_get id' (objects w this) of
              None \<Rightarrow>
                (Inr None, w\<lparr>console := console w @ [Console_error (Failed_to_resolve_library id' version)]\<rparr>)
            | Some versions \<Rightarrow>
                (case Map_get version versions of
                   None \<Rightarrow>
                     (Inr None, w\<lparr>console := console w @ [Console_error (Failed_to_resolve_library id' version)]\<rparr>)
                 | Some json \<Rightarrow>
                     (case new_Library cql json this w of
                        (Inl e, w') \<Rightarrow> (Inl e, w')
                      | (Inr lib, w') \<Rightarrow> (Inr (Some lib), w')))))"
| "resolveLatest cql 0 this id' w = (Inl RangeError, w)"
| "resolveLatest cql (Suc depth) this id' w =
     (case Map_get id' (objects w this) of
        None \<Rightarrow> (Inr None, w\<lparr>console := console w @ [Console_error (Failed_to_resolve_latest id')]\<rparr>)
      | Some versions \<Rightarrow>
          (if Map_size versions > 0
           then (case latest_of (Map_keys versions) None of
                   Inl e \<Rightarrow> (Inl e, w)
                 | Inr latestVersion \<Rightarrow> resolve cql depth this id' latestVersion w)
           else (Inr None, w\<lparr>console := console w @ [Console_error (Failed_to_resolve_latest id')]\<rparr>)))"

text \<open>
  \<^verbatim>\<open>all()\<close>: the documents of every version map, in the order of the maps, each given
  to the constructor and the object pushed on \<open>libraries\<close>. What a constructor raises
  ends the call.
\<close>

fun push_all :: "engine \<Rightarrow> addr \<Rightarrow> json list \<Rightarrow> library list \<Rightarrow> world \<Rightarrow> (error + library list) \<times> world" where
  "push_all cql this [] libraries w = (Inr libraries, w)"
| "push_all cql this (lib # libs) libraries w =
     (case new_Library cql lib this w of
        (Inl e, w') \<Rightarrow> (Inl e, w')
      | (Inr made, w') \<Rightarrow> push_all cql this libs (libraries @ [made]) w')"

definition all :: "engine \<Rightarrow> addr \<Rightarrow> world \<Rightarrow> (error + library list) \<times> world" where
  "all cql this w = push_all cql this (concat (map Map_values (Map_values (objects w this)))) [] w"

section \<open>The file system\<close>

text \<open>
  The loader reads a tree of directories and regular files. A file carries its
  modification time and what \<^verbatim>\<open>JSON.parse(fs.readFileSync(file, 'utf8'))\<close> makes of it:
  the parsed document, or the error raised (SyntaxError for malformed content). A
  directory carries its modification time and its entries in the order
  \<^verbatim>\<open>readdirSync\<close> lists them; \<open>Locked\<close> is a directory that \<^verbatim>\<open>readdirSync\<close> refuses to
  list. The file system gives the tree at a path; it does not change during a call.
\<close>

datatype node =
    File time "error + json"
  | Dir time "(string \<times> node) list"
  | Locked time error

type_synonym filesystem = "string \<Rightarrow> node option"

definition existsSync :: "filesystem \<Rightarrow> string \<Rightarrow> bool" where
  "existsSync fs p = (fs p \<noteq> None)"

text \<open>\<^verbatim>\<open>fs.lstatSync(p).isDirectory()\<close> of a path that exists.\<close>

definition isDirectory :: "filesystem \<Rightarrow> string \<Rightarrow> bool" where
  "isDirectory fs p =
     (case fs p of Some (Dir mtimeMs entries) \<Rightarrow> True | Some (Locked mtimeMs e) \<Rightarrow> True | _ \<Rightarrow> False)"

definition readdirSync :: "filesystem \<Rightarrow> string \<Rightarrow> error + (string \<times> node) list" where
  "readdirSync fs p =
     (case fs p of
        None \<Rightarrow> Inl (SystemError ''ENOENT'')
      | Some (File mtimeMs content) \<Rightarrow> Inl (SystemError ''ENOTDIR'')
      | Some (Dir mtimeMs entries) \<Rightarrow> Inr entries
      | Some (Locked mtimeMs e) \<Rightarrow> Inl e)"

definition endsWith :: "string \<Rightarrow> string \<Rightarrow> bool" where
  "endsWith s t = (length t \<le> length s \<and> drop (length s - length t) s = t)"

definition path_join :: "string \<Rightarrow> string \<Rightarrow> string" where
  "path_join dir name = dir @ ''/'' @ name"

section \<open>The loader\<close>

text \<open>
  The loop of \<^verbatim>\<open>load\<close> over the entries of \<open>pathToFolder\<close>. An error raised by a
  file, or inside a directory below, ends the loop and leaves the world as it is then.
  The call \<^verbatim>\<open>load(file, false)\<close> on a directory passes the test of its first lines and
  runs the loop there.
\<close>

fun load_entries :: "string \<Rightarrow> (string \<times> node) list \<Rightarrow> world \<Rightarrow> (error + unit) \<times> world" where
  "load_entries pathToFolder [] w = (Inr (), w)"
| "load_entries pathToFolder ((fileName, n) # rest) w =
     (let file = path_join pathToFolder fileName in
      case n of
        File mtimeMs content \<Rightarrow>
          (if \<not> endsWith file ''.json'' then load_entries pathToFolder rest w
           else (case content of
                   Inl e \<Rightarrow> (Inl e, w)
                 | Inr json \<Rightarrow> load_entries pathToFolder rest (addLibrary (repo w) json w)))
      | Dir mtimeMs entries \<Rightarrow>
          (case load_entries file entries w of
             (Inl e, w') \<Rightarrow> (Inl e, w')
           | (Inr u, w') \<Rightarrow> load_entries pathToFolder rest w')
      | Locked mtimeMs e \<Rightarrow> (Inl e, w))"

text \<open>\<^verbatim>\<open>load(pathToFolder, isTopLevel)\<close>, with \<open>now\<close> for what \<^verbatim>\<open>Date.now()\<close> returns.\<close>

definition load :: "filesystem \<Rightarrow> time \<Rightarrow> string \<Rightarrow> bool \<Rightarrow> world \<Rightarrow> (error + unit) \<times> world" where
  "load fs now pathToFolder isTopLevel w =
     (if \<not> existsSync fs pathToFolder \<or> \<not> isDirectory fs pathToFolder
      then (Inr (), w\<lparr>console := console w @ [Console_error (Failed_to_load pathToFolder)]\<rparr>)
      else
        let tracked = (if isTopLevel then w\<lparr>librariesPath := Some pathToFolder, lastLoadTime := now\<rparr> else w) in
        case readdirSync fs pathToFolder of
          Inl e \<Rightarrow> (Inl e, tracked)
        | Inr entries \<Rightarrow> load_entries pathToFolder entries tracked)"

definition get :: "world \<Rightarrow> addr" where
  "get w = repo w"

text \<open>\<^verbatim>\<open>repo = new Libraries()\<close>: a new instance with an empty store, and \<open>repo\<close> set to it.\<close>

definition reset :: "world \<Rightarrow> world" where
  "reset w = w\<lparr>objects := (objects w)(fresh w := []), fresh := Suc (fresh w), repo := fresh w\<rparr>"

section \<open>The staleness check\<close>

text \<open>
  \<^verbatim>\<open>getLatestModTime\<close> on the tree at \<open>dir\<close>, with the lines it prints. Every call
  catches what is raised inside it and returns 0: a regular file and a locked
  directory fail at \<^verbatim>\<open>readdirSync\<close>, a missing path at \<^verbatim>\<open>statSync\<close>.
\<close>

fun latest_in :: "(string \<times> node) list \<Rightarrow> time \<Rightarrow> time \<times> line list"
  and getLatestModTime_of :: "node \<Rightarrow> time \<times> line list"
where
  "latest_in [] latest = (latest, [])"
| "latest_in ((entry, n) # rest) latest =
     (case n of
        File mtimeMs content \<Rightarrow>
          (if endsWith entry ''.json'' then latest_in rest (max latest mtimeMs)
           else latest_in rest latest)
      | _ \<Rightarrow>
          (case getLatestModTime_of n of
             (t, printed) \<Rightarrow>
               (case latest_in rest (max latest t) of (t', printed') \<Rightarrow> (t', printed @ printed'))))"
| "getLatestModTime_of (File mtimeMs content) =
     (0, [Console_error (Error_checking_modification_time (SystemError ''ENOTDIR''))])"
| "getLatestModTime_of (Dir mtimeMs entries) = latest_in entries mtimeMs"
| "getLatestModTime_of (Locked mtimeMs e) = (0, [Console_error (Error_checking_modification_time e)])"

definition getLatestModTime :: "filesystem \<Rightarrow> string \<Rightarrow> time \<times> line list" where
  "getLatestModTime fs dir =
     (case fs dir of
        None \<Rightarrow> (0, [Console_error (Error_checking_modification_time (SystemError ''ENOENT''))])
      | Some n \<Rightarrow> getLatestModTime_of n)"

text \<open>
  \<^verbatim>\<open>checkAndReloadIfNeeded()\<close>: \<open>now\<close> is what \<^verbatim>\<open>Date.now()\<close> returns in it, and
  \<open>loadNow\<close> what it returns in the \<^verbatim>\<open>load\<close> of a reload. An empty path is falsy, as
  \<^verbatim>\<open>null\<close> is. After the load, \<^verbatim>\<open>repo.all()\<close> runs twice: for the count, and for the
  lines that list the libraries.
\<close>

definition checkAndReloadIfNeeded :: "engine \<Rightarrow> filesystem \<Rightarrow> time \<Rightarrow> time \<Rightarrow> world \<Rightarrow> (error + unit) \<times> world" where
  "checkAndReloadIfNeeded cql fs now loadNow w =
     (case librariesPath w of
        None \<Rightarrow> (Inr (), w)
      | Some path \<Rightarrow>
          if path = [] then (Inr (), w)
          else if now - lastCheckTime w < CHECK_INTERVAL_MS then (Inr (), w)
          else
            (case getLatestModTime fs path of
               (latestModTime, printed) \<Rightarrow>
                 let checked = w\<lparr>lastCheckTime := now, console := console w @ printed, scans := Suc (scans w)\<rparr> in
                 if latestModTime > lastLoadTime checked then
                   (case load fs loadNow path True
                           (reset (checked\<lparr>console := console checked @ [Console_log (Libraries_changed latestModTime)]\<rparr>)) of
                      (Inl e, loaded) \<Rightarrow> (Inl e, loaded)
                    | (Inr u, loaded) \<Rightarrow>
                        (case all cql (repo loaded) loaded of
                           (Inl e, counted) \<Rightarrow> (Inl e, counted)
                         | (Inr libraries, counted) \<Rightarrow>
                             (case all cql (repo counted)
                                     (counted\<lparr>console := console counted
                                        @ [Console_log (Reloaded_libraries (length libraries))]\<rparr>) of
                                (Inl e, listed) \<Rightarrow> (Inl e, listed)
                              | (Inr libraries', listed) \<Rightarrow>
                                  (Inr (),
                                   listed\<lparr>console := console listed
                                      @ map (\<lambda>lib. Console_log
                                               (Reloaded_library (identifier_id (source lib))
                                                  (identifier_version (source lib))))
                                          libraries'\<rparr>))))
                 else (Inr (), checked)))"

section \<open>What a load visits\<close>

text \<open>
  The parse results that the loop of \<^verbatim>\<open>load\<close> meets in a directory, in its order: one
  for each file whose path ends in .json, those of a directory below in its place, and
  the error of a directory that cannot be listed.
\<close>

fun visited :: "string \<Rightarrow> (string \<times> node) list \<Rightarrow> (error + json) list" where
  "visited pathToFolder [] = []"
| "visited pathToFolder ((fileName, n) # rest) =
     (case n of
        File mtimeMs content \<Rightarrow>
          (if endsWith (path_join pathToFolder fileName) ''.json'' then [content] else [])
      | Dir mtimeMs entries \<Rightarrow> visited (path_join pathToFolder fileName) entries
      | Locked mtimeMs e \<Rightarrow> [Inl e])
     @ visited pathToFolder rest"

text \<open>Adding them to the instance at \<open>this\<close> one by one, up to the first error.\<close>

fun add_all :: "addr \<Rightarrow> (error + json) list \<Rightarrow> world \<Rightarrow> (error + unit) \<times> world" where
  "add_all this [] w = (Inr (), w)"
| "add_all this (Inl e # rest) w = (Inl e, w)"
| "add_all this (Inr json # rest) w = add_all this rest (addLibrary this json w)"

text \<open>The worlds that this passes through: the one it starts in, and the one after each call of \<^verbatim>\<open>addLibrary\<close>.\<close>

fun states_of :: "addr \<Rightarrow> (error + json) list \<Rightarrow> world \<Rightarrow> world list" where
  "states_of this [] w = [w]"
| "states_of this (Inl e # rest) w = [w]"
| "states_of this (Inr json # rest) w = w # states_of this rest (addLibrary this json w)"

text \<open>
  \<^verbatim>\<open>checkAndReloadIfNeeded\<close> reloads when a path is registered, the check interval has
  passed and the tree is newer than the last load.
\<close>

definition reloads :: "filesystem \<Rightarrow> time \<Rightarrow> world \<Rightarrow> bool" where
  "reloads fs now w =
     (case librariesPath w of
        None \<Rightarrow> False
      | Some path \<Rightarrow>
          path \<noteq> [] \<and> \<not> now - lastCheckTime w < CHECK_INTERVAL_MS
          \<and> fst (getLatestModTime fs path) > lastLoadTime w)"

text \<open>
  The world in which a reload calls \<^verbatim>\<open>load\<close>: the check is recorded, the change is
  printed and \<^verbatim>\<open>reset()\<close> has run.
\<close>

definition reload_start :: "filesystem \<Rightarrow> time \<Rightarrow> world \<Rightarrow> world" where
  "reload_start fs now w =
     (case librariesPath w of
        None \<Rightarrow> w
      | Some path \<Rightarrow>
          (case getLatestModTime fs path of
             (latestModTime, printed) \<Rightarrow>
               let checked = w\<lparr>lastCheckTime := now, console := console w @ printed, scans := Suc (scans w)\<rparr>
               in reset (checked\<lparr>console := console checked @ [Console_log (Libraries_changed latestModTime)]\<rparr>)))"

text \<open>
  The worlds that a reload passes through from there: the one \<^verbatim>\<open>reset()\<close> leaves, the
  one in which \<^verbatim>\<open>load\<close> has recorded the path and the time, and the one after each
  call of \<^verbatim>\<open>addLibrary\<close> that \<^verbatim>\<open>load\<close> makes.
\<close>

definition reload_states :: "filesystem \<Rightarrow> time \<Rightarrow> time \<Rightarrow> world \<Rightarrow> world list" where
  "reload_states fs now loadNow w =
     (case librariesPath w of
        None \<Rightarrow> []
      | Some path \<Rightarrow>
          reload_start fs now w
          # states_of (repo (reload_start fs now w))
              (case readdirSync fs path of Inl e \<Rightarrow> [Inl e] | Inr entries \<Rightarrow> visited path entries)
              ((reload_start fs now w)\<lparr>librariesPath := Some path, lastLoadTime := loadNow\<rparr>))"

section \<open>Predicates of the claims\<close>

text \<open>
  The values that a \<^verbatim>\<open>Map\<close> compares as values when they are its keys: every value
  but an object or an array.
\<close>

fun primitive :: "jsval \<Rightarrow> bool" where
  "primitive (Some (JArr xs)) = False"
| "primitive (Some (JObj kvs)) = False"
| "primitive v = True"


text \<open>A value that \<^verbatim>\<open>new SemVer\<close> accepts: a string that reads as a semantic version.\<close>

definition parses :: "jsval \<Rightarrow> bool" where
  "parses v = (case new_SemVer v of Inl e \<Rightarrow> False | Inr x \<Rightarrow> True)"

text \<open>
  Such a value whose numeric pre-release identifiers are at most 2^53 - 1, so that the
  package compares them exactly.
\<close>

fun safe :: "ident \<Rightarrow> bool" where
  "safe (Numeric n) = (n \<le> MAX_SAFE_INTEGER)"
| "safe (Alphanumeric s) = True"

definition valid :: "jsval \<Rightarrow> bool" where
  "valid v = (case new_SemVer v of Inl e \<Rightarrow> False | Inr x \<Rightarrow> list_all safe (prerelease x))"

section \<open>Examples\<close>

text \<open>The world when the module has been loaded: \<^verbatim>\<open>var repo = new Libraries()\<close>.\<close>

definition initial_world :: world where
  "initial_world =
     \<lparr>objects = (\<lambda>a. []), fresh = 1, repo = 0, librariesPath = None, lastLoadTime = 0,
      lastCheckTime = 0, console = [], scans = 0\<rparr>"

text \<open>
  Engines: one whose constructor takes the document and calls nothing, as that of
  cql-execution does with the documents below, which include no other library; one
  whose constructor resolves a library \<open>path\<close> in the version \<open>version\<close>, as for a
  document that includes it, that library including nothing; one whose constructor
  raises TypeError.
\<close>

definition quiet :: engine where
  "quiet json libraryManager w = (None, [])"

definition with_include :: "jsval \<Rightarrow> jsval \<Rightarrow> engine" where
  "with_include path version json libraryManager w =
     (case resolve quiet 2 libraryManager path version w of
        (Inl e, w') \<Rightarrow> (Some e, drop (length (console w)) (console w'))
      | (Inr included, w') \<Rightarrow> (None, drop (length (console w)) (console w')))"

definition rejecting :: engine where
  "rejecting json libraryManager w = (Some TypeError, [])"

text \<open>Documents: a library with an id, a version and a body; one without a version; one without an id.\<close>

definition elm :: "string \<Rightarrow> string \<Rightarrow> string \<Rightarrow> json" where
  "elm i v body =
     JObj [(''library'',
            JObj [(''identifier'', JObj [(''id'', JStr i), (''version'', JStr v)]),
                  (''statements'', JStr body)])]"

definition elm_without_version :: "string \<Rightarrow> json" where
  "elm_without_version i = JObj [(''library'', JObj [(''identifier'', JObj [(''id'', JStr i)])])]"

definition elm_without_id :: "string \<Rightarrow> json" where
  "elm_without_id v = JObj [(''library'', JObj [(''identifier'', JObj [(''version'', JStr v)])])]"

text \<open>A repository that holds X in the versions 1.0.0, 2.0.0-beta and 1.2.0, added in this order.\<close>

definition three_versions :: world where
  "three_versions =
     addLibrary 0 (elm ''X'' ''1.2.0'' ''c'')
       (addLibrary 0 (elm ''X'' ''2.0.0-beta'' ''b'')
          (addLibrary 0 (elm ''X'' ''1.0.0'' ''a'') initial_world))"

text \<open>A repository that holds X in the versions 1.0.0 and 1.0, added in this order.\<close>

definition invalid_version_world :: world where
  "invalid_version_world =
     addLibrary 0 (elm ''X'' ''1.0'' ''b'') (addLibrary 0 (elm ''X'' ''1.0.0'' ''a'') initial_world)"

text \<open>A repository that holds X in the versions 1 and 2, added in this order.\<close>

definition plain_versions :: world where
  "plain_versions =
     addLibrary 0 (elm ''X'' ''2'' ''b'') (addLibrary 0 (elm ''X'' ''1'' ''a'') initial_world)"

text \<open>
  File systems that hold one directory, /libs: with one library; with two libraries
  and a file that is not JSON by its name; with a library, a malformed file and another
  library.
\<close>

definition old_tree :: filesystem where
  "old_tree p =
     (if p = ''/libs'' then Some (Dir 3 [(''old.json'', File 3 (Inr (elm ''Old'' ''1.0.0'' ''o'')))])
      else None)"

definition new_tree :: filesystem where
  "new_tree p =
     (if p = ''/libs''
      then Some (Dir 10 [(''a.json'', File 10 (Inr (elm ''A'' ''1.0.0'' ''a''))),
                         (''notes.txt'', File 10 (Inl SyntaxError)),
                         (''b.json'', File 10 (Inr (elm ''B'' ''1.0.0'' ''b'')))])
      else None)"

definition broken_tree :: filesystem where
  "broken_tree p =
     (if p = ''/libs''
      then Some (Dir 10 [(''a.json'', File 10 (Inr (elm ''A'' ''1.0.0'' ''a''))),
                         (''b.json'', File 10 (Inl SyntaxError)),
                         (''c.json'', File 10 (Inr (elm ''C'' ''1.0.0'' ''c'')))])
      else None)"

text \<open>A file system in which the path of a regular file is the only one there is.\<close>

definition only_a_file :: filesystem where
  "only_a_file p = (if p = ''/libs/a.json'' then Some (File 10 (Inr (elm ''A'' ''1.0.0'' ''a''))) else None)"

text \<open>The world after \<^verbatim>\<open>load('/libs')\<close> of the old tree at time 5.\<close>

definition loaded_world :: world where
  "loaded_world = snd (load old_tree 5 ''/libs'' True initial_world)"

text \<open>The loaded world after a staleness check at time 10000, the old tree unchanged.\<close>

definition checked_world :: world where
  "checked_world = snd (checkAndReloadIfNeeded quiet old_tree 10000 10000 loaded_world)"

section \<open>Map and addLibrary\<close>

lemma Map_get_set_same: "Map_get k (Map_set k v m) = Some v"
  by (induction m) (auto simp: Map_get_def)

lemma Map_get_set_other: "k' \<noteq> k \<Longrightarrow> Map_get k' (Map_set k v m) = Map_get k' m"
  by (induction m) (auto simp: Map_get_def)

lemma Map_set_set: "Map_set k v (Map_set k u m) = Map_set k v m"
  by (induction m) auto

lemma addLibrary_ignores: "\<not> truthy (identifier_id json) \<Longrightarrow> addLibrary this json w = w"
  by (auto simp: addLibrary_def identifier_id_def split: option.splits)

text \<open>What \<^verbatim>\<open>addLibrary\<close> does with a document that has a truthy id.\<close>

lemma addLibrary_adds:
  assumes "truthy (identifier_id json)"
  shows "addLibrary this json w =
     w\<lparr>objects := (objects w)(this :=
          Map_set (identifier_id json)
            (Map_set (identifier_version json) json
               (case Map_get (identifier_id json) (objects w this) of None \<Rightarrow> [] | Some vs \<Rightarrow> vs))
            (objects w this)),
       console := console w @
          (case stored_at this (identifier_id json) (identifier_version json) w of
             None \<Rightarrow> []
           | Some loadedJSON \<Rightarrow>
               if JSON_stringify loadedJSON \<noteq> JSON_stringify json
               then [Console_error (Multiple_copies (identifier_id json) (identifier_version json))]
               else [])\<rparr>"
  using assms
  by (auto simp: addLibrary_def identifier_id_def identifier_version_def stored_at_def Let_def
      split: option.splits)

lemma stored_at_addLibrary:
  assumes "truthy (identifier_id json)"
  shows "stored_at this (identifier_id json) (identifier_version json) (addLibrary this json w) = Some json"
  by (simp add: addLibrary_adds[OF assms] stored_at_def Map_get_set_same)

lemma addLibrary_twice:
  assumes "truthy (identifier_id D1)" "identifier_id D2 = identifier_id D1"
    "identifier_version D2 = identifier_version D1"
  shows "objects (addLibrary this D2 (addLibrary this D1 w)) = objects (addLibrary this D2 w)"
proof -
  have t2: "truthy (identifier_id D2)" using assms by simp
  show ?thesis
    by (simp add: addLibrary_adds[OF assms(1)] addLibrary_adds[OF t2] assms(2,3)
        Map_get_set_same Map_set_set split: option.splits)
qed

lemma elm_id: "identifier_id (elm i v b) = Some (JStr i)"
  by (simp add: identifier_id_def library_identifier_def elm_def)

lemma elm_version: "identifier_version (elm i v b) = Some (JStr v)"
  by (simp add: identifier_version_def library_identifier_def elm_def)

lemma elm_a_b_differ:
  "JSON_stringify (elm ''X'' ''1.0.0'' ''a'') \<noteq> JSON_stringify (elm ''X'' ''1.0.0'' ''b'')"
  by (simp add: elm_def quote_def escape_char_def)

section \<open>Claim C1\<close>

text \<open>
  Claim C1 says that of two documents with the same id and version and differing
  content, added one after the other, the first stays stored. The last line of
  \<^verbatim>\<open>addLibrary\<close> stores the document in every case, so the second replaces the first:
  adding X:1.0.0 with body a and then X:1.0.0 with body b leaves the one with body b.
\<close>

theorem first_write_does_not_win:
  "stored_at 0 (Some (JStr ''X'')) (Some (JStr ''1.0.0''))
     (addLibrary 0 (elm ''X'' ''1.0.0'' ''b'') (addLibrary 0 (elm ''X'' ''1.0.0'' ''a'') initial_world))
     = Some (elm ''X'' ''1.0.0'' ''b'')
   \<and> elm ''X'' ''1.0.0'' ''b'' \<noteq> elm ''X'' ''1.0.0'' ''a''
   \<and> JSON_stringify (elm ''X'' ''1.0.0'' ''a'') \<noteq> JSON_stringify (elm ''X'' ''1.0.0'' ''b'')"
proof -
  have h2: "truthy (identifier_id (elm ''X'' ''1.0.0'' ''b''))" by (simp add: elm_id)
  have "stored_at 0 (Some (JStr ''X'')) (Some (JStr ''1.0.0''))
     (addLibrary 0 (elm ''X'' ''1.0.0'' ''b'') (addLibrary 0 (elm ''X'' ''1.0.0'' ''a'') initial_world))
     = Some (elm ''X'' ''1.0.0'' ''b'')"
    using stored_at_addLibrary[OF h2, of 0] by (simp add: elm_id elm_version)
  moreover have "elm ''X'' ''1.0.0'' ''b'' \<noteq> elm ''X'' ''1.0.0'' ''a''" by (simp add: elm_def)
  ultimately show ?thesis using elm_a_b_differ by simp
qed

text \<open>
  Claim C1, as amended: for every store and every two documents D1 and D2 with the same
  truthy id and the same version, both primitive values (strings, as a rule), which are
  the same key to a \<^verbatim>\<open>Map\<close> when they are equal, and whose serialisations differ,
  \<^verbatim>\<open>addLibrary(D1)\<close> followed by \<^verbatim>\<open>addLibrary(D2)\<close> leaves D2 under that key (the last
  write wins: the store is the one that adding D2 alone gives), and the second call
  prints exactly one warning, for that id and version. \<^verbatim>\<open>addLibrary\<close> has no result but
  the world: it raises nothing.
\<close>

theorem addLibrary_last_write_wins:
  assumes "truthy (identifier_id D1)"
    and "identifier_id D2 = identifier_id D1"
    and "identifier_version D2 = identifier_version D1"
    and "JSON_stringify D1 \<noteq> JSON_stringify D2"
    and "primitive (identifier_id D1)"
    and "primitive (identifier_version D1)"
  shows "stored_at this (identifier_id D1) (identifier_version D1)
           (addLibrary this D2 (addLibrary this D1 w)) = Some D2
       \<and> objects (addLibrary this D2 (addLibrary this D1 w)) = objects (addLibrary this D2 w)
       \<and> console (addLibrary this D2 (addLibrary this D1 w)) =
           console (addLibrary this D1 w)
           @ [Console_error (Multiple_copies (identifier_id D1) (identifier_version D1))]"
proof -
  have t2: "truthy (identifier_id D2)" using assms by simp
  have a: "stored_at this (identifier_id D1) (identifier_version D1)
           (addLibrary this D2 (addLibrary this D1 w)) = Some D2"
    using stored_at_addLibrary[OF t2, of this "addLibrary this D1 w"] assms(2,3) by simp
  have b: "stored_at this (identifier_id D1) (identifier_version D1) (addLibrary this D1 w) = Some D1"
    by (rule stored_at_addLibrary[OF assms(1)])
  have c: "console (addLibrary this D2 (addLibrary this D1 w)) =
           console (addLibrary this D1 w)
           @ [Console_error (Multiple_copies (identifier_id D1) (identifier_version D1))]"
    using assms(4) by (simp add: addLibrary_adds[OF t2, of this "addLibrary this D1 w"] b assms(2,3))
  show ?thesis using a addLibrary_twice[OF assms(1-3)] c by simp
qed

theorem addLibrary_last_write_wins_witness:
  "primitive (Some (JStr ''X'')) \<and> primitive (Some (JStr ''1.0.0''))
   \<and> stored_at 0 (Some (JStr ''X'')) (Some (JStr ''1.0.0''))
     (addLibrary 0 (elm ''X'' ''1.0.0'' ''b'') (addLibrary 0 (elm ''X'' ''1.0.0'' ''a'') initial_world))
     = Some (elm ''X'' ''1.0.0'' ''b'')
   \<and> console (addLibrary 0 (elm ''X'' ''1.0.0'' ''b'') (addLibrary 0 (elm ''X'' ''1.0.0'' ''a'') initial_world))
     = [Console_error (Multiple_copies (Some (JStr ''X'')) (Some (JStr ''1.0.0'')))]"
proof -
  have h1: "truthy (identifier_id (elm ''X'' ''1.0.0'' ''a''))" by (simp add: elm_id)
  have h2: "identifier_id (elm ''X'' ''1.0.0'' ''b'') = identifier_id (elm ''X'' ''1.0.0'' ''a'')"
    by (simp add: elm_id)
  have h3: "identifier_version (elm ''X'' ''1.0.0'' ''b'') = identifier_version (elm ''X'' ''1.0.0'' ''a'')"
    by (simp add: elm_version)
  have h5: "primitive (identifier_id (elm ''X'' ''1.0.0'' ''a''))"
    and h6: "primitive (identifier_version (elm ''X'' ''1.0.0'' ''a''))"
    by (simp_all add: elm_id elm_version)
  have c0: "console (addLibrary 0 (elm ''X'' ''1.0.0'' ''a'') initial_world) = []"
    by (simp add: addLibrary_adds[OF h1] initial_world_def stored_at_def Map_get_def)
  show ?thesis
    using addLibrary_last_write_wins[OF h1 h2 h3 elm_a_b_differ h5 h6, of 0 initial_world] c0
    by (simp add: elm_id elm_version)
qed

section \<open>Claim C9\<close>

lemma elm_without_version_id: "identifier_id (elm_without_version i) = Some (JStr i)"
  by (simp add: identifier_id_def library_identifier_def elm_without_version_def)

lemma elm_without_version_version: "identifier_version (elm_without_version i) = None"
  by (simp add: identifier_version_def library_identifier_def elm_without_version_def)

lemma elm_without_id_id: "identifier_id (elm_without_id v) = None"
  by (simp add: identifier_id_def library_identifier_def elm_without_id_def)

text \<open>
  Claim C9 says that \<^verbatim>\<open>addLibrary\<close> ignores a document that lacks
  \<^verbatim>\<open>identifier.version\<close>. The test of \<^verbatim>\<open>addLibrary\<close> reads the id only: a document with
  the id X and no version is stored, under X and the version \<^verbatim>\<open>undefined\<close>, where the
  empty repository held nothing.
\<close>

theorem document_without_version_is_indexed:
  "identifier_version (elm_without_version ''X'') = None
   \<and> stored_at 0 (Some (JStr ''X'')) None (addLibrary 0 (elm_without_version ''X'') initial_world)
       = Some (elm_without_version ''X'')
   \<and> stored_at 0 (Some (JStr ''X'')) None initial_world = None"
proof -
  have t: "truthy (identifier_id (elm_without_version ''X''))"
    by (simp add: elm_without_version_id)
  show ?thesis
    using stored_at_addLibrary[OF t, of 0 initial_world]
    by (simp add: elm_without_version_id elm_without_version_version initial_world_def
        stored_at_def Map_get_def)
qed

text \<open>
  Claim C9, as amended: \<^verbatim>\<open>addLibrary\<close> ignores every document whose
  \<^verbatim>\<open>library.identifier.id\<close> is missing (or falsy): the world, and so the store, is left as
  it was, and nothing is raised. A document that has an id and lacks
  \<^verbatim>\<open>identifier.version\<close> is not ignored: it is stored under its id and the version
  \<^verbatim>\<open>undefined\<close>.
\<close>

theorem addLibrary_needs_id_only:
  "(\<not> truthy (identifier_id json) \<longrightarrow> addLibrary this json w = w)
   \<and> (truthy (identifier_id json) \<and> identifier_version json = None \<longrightarrow>
        stored_at this (identifier_id json) None (addLibrary this json w) = Some json)"
  using stored_at_addLibrary[of json this w] by (auto simp: addLibrary_ignores)

theorem addLibrary_needs_id_only_witness:
  "\<not> truthy (identifier_id (elm_without_id ''1.0.0''))
   \<and> addLibrary 0 (elm_without_id ''1.0.0'') initial_world = initial_world
   \<and> truthy (identifier_id (elm_without_version ''X''))
   \<and> identifier_version (elm_without_version ''X'') = None
   \<and> stored_at 0 (Some (JStr ''X'')) None (addLibrary 0 (elm_without_version ''X'') initial_world)
       = Some (elm_without_version ''X'')"
  using addLibrary_needs_id_only[of "elm_without_id ''1.0.0''" 0 initial_world]
    addLibrary_needs_id_only[of "elm_without_version ''X''" 0 initial_world]
  by (simp add: elm_without_id_id elm_without_version_id elm_without_version_version)

section \<open>Claims C4 and C6\<close>

lemmas semver_eval =
  parse_def MAX_LENGTH_def trim_def is_space_def split_def is_digit_def number_of_def
  MAX_SAFE_INTEGER_def Let_def prerelease_identifier_def build_identifier_def
  is_letter_or_hyphen_def to_identifier_def semver_gt_def SemVer_compare_def compareMain_def
  comparePre_def compareNumbers_def or_else_def

lemma three_versions_store:
  "objects three_versions 0 =
     [(Some (JStr ''X''),
       [(Some (JStr ''1.0.0''), elm ''X'' ''1.0.0'' ''a''),
        (Some (JStr ''2.0.0-beta''), elm ''X'' ''2.0.0-beta'' ''b''),
        (Some (JStr ''1.2.0''), elm ''X'' ''1.2.0'' ''c'')])]"
  by (simp add: three_versions_def addLibrary_adds elm_id elm_version initial_world_def Map_get_def)

lemma three_versions_latest:
  "latest_of (Map_keys [(Some (JStr ''1.0.0''), elm ''X'' ''1.0.0'' ''a''),
        (Some (JStr ''2.0.0-beta''), elm ''X'' ''2.0.0-beta'' ''b''),
        (Some (JStr ''1.2.0''), elm ''X'' ''1.2.0'' ''c'')]) None = Inr (Some (JStr ''2.0.0-beta''))"
  by (simp add: Map_keys_def semver_eval)

lemma three_versions_console: "console three_versions = []"
  by (simp add: three_versions_def addLibrary_adds elm_id elm_version initial_world_def stored_at_def
      Map_get_def)

lemma three_versions_resolveLatest:
  "resolveLatest quiet 3 0 (Some (JStr ''X'')) three_versions
     = (Inr (Some (Library (elm ''X'' ''2.0.0-beta'' ''b'') 0)), three_versions)"
  by (simp add: numeral_3_eq_3 three_versions_store three_versions_latest Map_get_def Map_size_def
      new_Library_def quiet_def)

text \<open>
  When the latest version found is \<^verbatim>\<open>undefined\<close> or \<^verbatim>\<open>null\<close>, \<^verbatim>\<open>resolveLatest\<close> calls
  \<^verbatim>\<open>resolve\<close>, which calls \<^verbatim>\<open>resolveLatest\<close> again with the same arguments: the stack
  runs out, whatever its depth.
\<close>

lemma resolveLatest_overflow:
  assumes "Map_get id' (objects w this) = Some versions" "Map_size versions > 0"
    "latest_of (Map_keys versions) None = Inr latestVersion" "nullish latestVersion"
  shows "resolveLatest cql depth this id' w = (Inl RangeError, w)"
proof (induction depth rule: less_induct)
  case (less d)
  show ?case
  proof (cases d)
    case 0 then show ?thesis by simp
  next
    case (Suc d')
    show ?thesis
    proof (cases d')
      case 0 then show ?thesis using Suc assms by simp
    next
      case (Suc d'')
      have "resolveLatest cql d'' this id' w = (Inl RangeError, w)"
        using less[of d''] Suc \<open>d = Suc d'\<close> by simp
      then show ?thesis using Suc \<open>d = Suc d'\<close> assms by simp
    qed
  qed
qed

text \<open>With two frames or more, the result of \<^verbatim>\<open>resolveLatest\<close> no longer depends on the depth.\<close>

lemma resolveLatest_stable:
  "resolveLatest cql (Suc (Suc depth)) this id' w = resolveLatest cql (Suc (Suc 0)) this id' w"
proof (cases "Map_get id' (objects w this)")
  case None then show ?thesis by simp
next
  case (Some versions)
  show ?thesis
  proof (cases "Map_size versions > 0")
    case False then show ?thesis using Some by simp
  next
    case True
    show ?thesis
    proof (cases "latest_of (Map_keys versions) None")
      case (Inl e) then show ?thesis using Some True by simp
    next
      case (Inr latestVersion)
      show ?thesis
      proof (cases "nullish latestVersion")
        case True
        show ?thesis
          using resolveLatest_overflow[OF Some \<open>Map_size versions > 0\<close> Inr True] by simp
      next
        case False
        then show ?thesis using Some True Inr by simp
      qed
    qed
  qed
qed

text \<open>
  Claim C4: for every store and every id, \<^verbatim>\<open>resolve(id, version)\<close> with the version
  \<^verbatim>\<open>undefined\<close> (omitted) or \<^verbatim>\<open>null\<close> gives the result, and leaves the world, that
  \<^verbatim>\<open>resolveLatest(id)\<close> gives, on any call stack that takes three more frames.
\<close>

theorem resolve_without_version:
  assumes "nullish version" and "3 \<le> depth"
  shows "resolve cql depth this id' version w = resolveLatest cql depth this id' w"
proof -
  obtain d where d: "depth = Suc (Suc (Suc d))"
    using assms(2) by (metis Suc_le_D numeral_3_eq_3 Suc_le_mono)
  have "resolve cql depth this id' version w = resolveLatest cql (Suc (Suc d)) this id' w"
    using assms(1) d by simp
  also have "\<dots> = resolveLatest cql (Suc (Suc 0)) this id' w" by (rule resolveLatest_stable)
  also have "\<dots> = resolveLatest cql depth this id' w"
    unfolding d by (rule resolveLatest_stable[symmetric])
  finally show ?thesis .
qed

theorem resolve_without_version_witness:
  "nullish None \<and> nullish (Some JNull) \<and> (3::nat) \<le> 3
   \<and> resolve quiet 3 0 (Some (JStr ''X'')) None three_versions
       = (Inr (Some (Library (elm ''X'' ''2.0.0-beta'' ''b'') 0)), three_versions)
   \<and> resolve quiet 3 0 (Some (JStr ''X'')) (Some JNull) three_versions
       = (Inr (Some (Library (elm ''X'' ''2.0.0-beta'' ''b'') 0)), three_versions)"
proof -
  have h1: "nullish None" and h2: "nullish (Some JNull)" and h3: "(3::nat) \<le> 3" by simp_all
  show ?thesis
    using resolve_without_version[OF h1 h3, of quiet 0 "Some (JStr ''X'')" three_versions]
      resolve_without_version[OF h2 h3, of quiet 0 "Some (JStr ''X'')" three_versions]
    by (simp only: three_versions_resolveLatest h1 h2 h3 simp_thms)
qed



section \<open>Claim C7\<close>

text \<open>
  Claim C7: for every path that does not exist or is not a directory, \<^verbatim>\<open>load\<close> prints
  the failure and returns without raising; the world it leaves differs from the one
  before in the console only: nothing is loaded, and no path or time is recorded.
\<close>

theorem load_not_a_folder:
  assumes "\<not> existsSync fs pathToFolder \<or> \<not> isDirectory fs pathToFolder"
  shows "load fs now pathToFolder isTopLevel w =
           (Inr (), w\<lparr>console := console w @ [Console_error (Failed_to_load pathToFolder)]\<rparr>)"
  using assms by (auto simp: load_def)

theorem load_not_a_folder_witness:
  "\<not> existsSync old_tree ''/nowhere''
   \<and> load old_tree 7 ''/nowhere'' True initial_world =
       (Inr (), initial_world\<lparr>console := [Console_error (Failed_to_load ''/nowhere'')]\<rparr>)
   \<and> existsSync only_a_file ''/libs/a.json'' \<and> \<not> isDirectory only_a_file ''/libs/a.json''
   \<and> load only_a_file 7 ''/libs/a.json'' True initial_world =
       (Inr (), initial_world\<lparr>console := [Console_error (Failed_to_load ''/libs/a.json'')]\<rparr>)"
proof -
  have a: "\<not> existsSync old_tree ''/nowhere''"
    by (simp add: existsSync_def old_tree_def)
  have b: "existsSync only_a_file ''/libs/a.json''" and c: "\<not> isDirectory only_a_file ''/libs/a.json''"
    by (simp_all add: existsSync_def isDirectory_def only_a_file_def)
  have d: "console initial_world = []" by (simp add: initial_world_def)
  show ?thesis
    using load_not_a_folder[OF disjI1[OF a], of 7 True initial_world]
      load_not_a_folder[OF disjI2[OF c], of 7 True initial_world] a b c d
    by simp
qed

section \<open>The loader, document by document\<close>

lemma addLibrary_frame:
  "fresh (addLibrary a j w) = fresh w" "repo (addLibrary a j w) = repo w"
  "librariesPath (addLibrary a j w) = librariesPath w" "lastLoadTime (addLibrary a j w) = lastLoadTime w"
  "lastCheckTime (addLibrary a j w) = lastCheckTime w" "scans (addLibrary a j w) = scans w"
  "b \<noteq> a \<Longrightarrow> objects (addLibrary a j w) b = objects w b"
  by (cases "truthy (identifier_id j)"; simp add: addLibrary_adds addLibrary_ignores)+

lemma add_all_append:
  "add_all a (xs @ ys) w =
     (case add_all a xs w of (Inl e, w') \<Rightarrow> (Inl e, w') | (Inr u, w') \<Rightarrow> add_all a ys w')"
  by (induction a xs w rule: add_all.induct) auto

lemma add_all_frame:
  "add_all a ds w = (r, w') \<Longrightarrow>
     fresh w' = fresh w \<and> repo w' = repo w \<and> librariesPath w' = librariesPath w
     \<and> lastLoadTime w' = lastLoadTime w \<and> lastCheckTime w' = lastCheckTime w \<and> scans w' = scans w
     \<and> (\<forall>b. b \<noteq> a \<longrightarrow> objects w' b = objects w b)"
  by (induction a ds w rule: add_all.induct) (auto simp: addLibrary_frame)

lemma load_entries_visited: "load_entries p es w = add_all (repo w) (visited p es) w"
proof (induction p es w rule: load_entries.induct)
  case (1 pathToFolder w)
  then show ?case by simp
next
  case (2 pathToFolder fileName n rest w)
  show ?case
  proof (cases n)
    case (File mtimeMs content)
    show ?thesis
    proof (cases "endsWith (path_join pathToFolder fileName) ''.json''")
      case False
      then show ?thesis using 2(1)[OF refl File] File by simp
    next
      case True
      show ?thesis
      proof (cases content)
        case (Inl e) then show ?thesis using File True by simp
      next
        case (Inr json)
        have "load_entries pathToFolder rest (addLibrary (repo w) json w)
              = add_all (repo w) (visited pathToFolder rest) (addLibrary (repo w) json w)"
          using 2(2)[OF refl File _ Inr] True by (simp add: addLibrary_frame)
        then show ?thesis using File True Inr by simp
      qed
    qed
  next
    case (Dir mtimeMs entries)
    have ih1: "load_entries (path_join pathToFolder fileName) entries w
                = add_all (repo w) (visited (path_join pathToFolder fileName) entries) w"
      using 2(3)[OF refl Dir] .
    obtain r w' where rw: "add_all (repo w) (visited (path_join pathToFolder fileName) entries) w = (r, w')"
      by (cases "add_all (repo w) (visited (path_join pathToFolder fileName) entries) w")
    have repo: "repo w' = repo w" using add_all_frame[OF rw] by simp
    show ?thesis
    proof (cases r)
      case (Inl e)
      then show ?thesis using Dir ih1 rw by (simp add: add_all_append)
    next
      case (Inr u)
      have eq: "(Inr u, w') = load_entries (path_join pathToFolder fileName) entries w"
        using ih1 rw Inr by simp
      have "load_entries pathToFolder rest w' = add_all (repo w') (visited pathToFolder rest) w'"
        by (rule 2(4)[OF refl Dir eq refl])
      then show ?thesis using Dir ih1 rw Inr repo by (simp add: add_all_append)
    qed
  next
    case (Locked mtimeMs e)
    then show ?thesis by simp
  qed
qed

text \<open>What a load leaves of the variables of the staleness check.\<close>

lemma load_frame:
  assumes "load fs now p isTopLevel w = (r, w')"
  shows "lastCheckTime w' = lastCheckTime w \<and> scans w' = scans w \<and> repo w' = repo w \<and> fresh w' = fresh w
    \<and> (librariesPath w' = librariesPath w \<or> librariesPath w' = Some p)
    \<and> (\<forall>b. b \<noteq> repo w \<longrightarrow> objects w' b = objects w b)"
proof (cases "\<not> existsSync fs p \<or> \<not> isDirectory fs p")
  case True
  then show ?thesis using assms by (auto simp: load_def)
next
  case False
  define tracked where "tracked = (if isTopLevel then w\<lparr>librariesPath := Some p, lastLoadTime := now\<rparr> else w)"
  have t: "lastCheckTime tracked = lastCheckTime w" "scans tracked = scans w" "repo tracked = repo w"
    "fresh tracked = fresh w" "objects tracked = objects w"
    "librariesPath tracked = librariesPath w \<or> librariesPath tracked = Some p"
    by (auto simp: tracked_def)
  show ?thesis
  proof (cases "readdirSync fs p")
    case (Inl e)
    then have "w' = tracked" using assms False by (auto simp: load_def tracked_def Let_def)
    then show ?thesis using t by auto
  next
    case (Inr entries)
    then have "add_all (repo tracked) (visited p entries) tracked = (r, w')"
      using assms False by (auto simp: load_def tracked_def Let_def load_entries_visited)
    from add_all_frame[OF this] show ?thesis using t by auto
  qed
qed

text \<open>A constructor leaves the world as it is, the console apart; so does \<^verbatim>\<open>all()\<close>.\<close>

lemma new_Library_frame:
  "new_Library cql json this w = (r, w') \<Longrightarrow> \<exists>c. w' = w\<lparr>console := c\<rparr>"
  by (auto simp: new_Library_def split: prod.splits option.splits)

lemma push_all_frame:
  "push_all cql this libs libraries w = (r, w') \<Longrightarrow> \<exists>c. w' = w\<lparr>console := c\<rparr>"
proof (induction libs arbitrary: libraries w)
  case Nil
  then have "w' = w\<lparr>console := console w\<rparr>" by simp
  then show ?case by blast
next
  case (Cons lib libs)
  obtain q v where n: "new_Library cql lib this w = (q, v)"
    by (cases "new_Library cql lib this w")
  from new_Library_frame[OF n] obtain c where c: "v = w\<lparr>console := c\<rparr>" by blast
  show ?case
  proof (cases q)
    case (Inl e)
    then show ?thesis using Cons.prems n c by auto
  next
    case (Inr made)
    then have "push_all cql this libs (libraries @ [made]) v = (r, w')"
      using Cons.prems n by simp
    from Cons.IH[OF this] obtain c' where "w' = v\<lparr>console := c'\<rparr>" by blast
    then have "w' = w\<lparr>console := c'\<rparr>" using c by simp
    then show ?thesis by blast
  qed
qed

lemma all_frame:
  "all cql this w = (r, w') \<Longrightarrow> \<exists>c. w' = w\<lparr>console := c\<rparr>"
  unfolding all_def by (rule push_all_frame)

text \<open>What \<^verbatim>\<open>checkAndReloadIfNeeded\<close> does once \<^verbatim>\<open>load\<close> has returned.\<close>

lemma after_load_frame:
  assumes "(case all cql (repo loaded) loaded of
              (Inl e, counted) \<Rightarrow> (Inl e, counted)
            | (Inr libraries, counted) \<Rightarrow>
                (case all cql (repo counted)
                        (counted\<lparr>console := console counted
                           @ [Console_log (Reloaded_libraries (length libraries))]\<rparr>) of
                   (Inl e, listed) \<Rightarrow> (Inl e, listed)
                 | (Inr libraries', listed) \<Rightarrow>
                     (Inr (),
                      listed\<lparr>console := console listed
                         @ map (\<lambda>lib. Console_log
                                  (Reloaded_library (identifier_id (source lib))
                                     (identifier_version (source lib))))
                             libraries'\<rparr>))) = (r, w')"
  shows "\<exists>c. w' = loaded\<lparr>console := c\<rparr>"
proof -
  obtain q counted where a1: "all cql (repo loaded) loaded = (q, counted)"
    by (cases "all cql (repo loaded) loaded")
  from all_frame[OF a1] obtain c1 where c1: "counted = loaded\<lparr>console := c1\<rparr>" by blast
  show ?thesis
  proof (cases q)
    case (Inl e)
    then show ?thesis using assms a1 c1 by auto
  next
    case (Inr libraries)
    obtain q' listed where a2: "all cql (repo counted)
        (counted\<lparr>console := console counted @ [Console_log (Reloaded_libraries (length libraries))]\<rparr>)
        = (q', listed)"
      by (cases "all cql (repo counted)
        (counted\<lparr>console := console counted @ [Console_log (Reloaded_libraries (length libraries))]\<rparr>)")
    from all_frame[OF a2] obtain c2 where
      "listed = counted\<lparr>console := console counted @ [Console_log (Reloaded_libraries (length libraries))]\<rparr>
                  \<lparr>console := c2\<rparr>" by blast
    then have l: "listed = loaded\<lparr>console := c2\<rparr>" using c1 by simp
    show ?thesis
    proof (cases q')
      case (Inl e)
      then show ?thesis using assms a1 a2 Inr l by auto
    next
      case (Inr libraries')
      then have "w' = listed\<lparr>console := console listed
                         @ map (\<lambda>lib. Console_log
                                  (Reloaded_library (identifier_id (source lib))
                                     (identifier_version (source lib))))
                             libraries'\<rparr>"
        using assms a1 a2 \<open>q = Inr libraries\<close> by simp
      then have "w' = loaded\<lparr>console := console listed
                         @ map (\<lambda>lib. Console_log
                                  (Reloaded_library (identifier_id (source lib))
                                     (identifier_version (source lib))))
                             libraries'\<rparr>"
        using l by simp
      then show ?thesis by blast
    qed
  qed
qed

lemma check_noop:
  "librariesPath w = None \<or> librariesPath w = Some [] \<or> now - lastCheckTime w < CHECK_INTERVAL_MS
   \<Longrightarrow> checkAndReloadIfNeeded cql fs now loadNow w = (Inr (), w)"
  by (auto simp: checkAndReloadIfNeeded_def split: option.splits)

lemma check_scans:
  assumes "librariesPath w = Some path" "path \<noteq> []" "\<not> now - lastCheckTime w < CHECK_INTERVAL_MS"
  shows "lastCheckTime (snd (checkAndReloadIfNeeded cql fs now loadNow w)) = now
    \<and> scans (snd (checkAndReloadIfNeeded cql fs now loadNow w)) = Suc (scans w)
    \<and> librariesPath (snd (checkAndReloadIfNeeded cql fs now loadNow w)) = Some path"
proof -
  obtain t printed where g: "getLatestModTime fs path = (t, printed)"
    by (cases "getLatestModTime fs path")
  define checked where "checked = w\<lparr>lastCheckTime := now, console := console w @ printed, scans := Suc (scans w)\<rparr>"
  show ?thesis
  proof (cases "t > lastLoadTime w")
    case False
    then show ?thesis using assms g by (simp add: checkAndReloadIfNeeded_def)
  next
    case True
    define start where "start = reset (checked\<lparr>console := console checked @ [Console_log (Libraries_changed t)]\<rparr>)"
    obtain r loaded where l: "load fs loadNow path True start = (r, loaded)"
      by (cases "load fs loadNow path True start")
    have s: "lastCheckTime start = now" "scans start = Suc (scans w)" "librariesPath start = Some path"
      by (simp_all add: start_def checked_def reset_def assms)
    have f: "lastCheckTime loaded = now \<and> scans loaded = Suc (scans w) \<and> librariesPath loaded = Some path"
      using load_frame[OF l] s by auto
    have "\<exists>c. snd (checkAndReloadIfNeeded cql fs now loadNow w) = loaded\<lparr>console := c\<rparr>"
    proof (cases r)
      case (Inl e)
      then have "snd (checkAndReloadIfNeeded cql fs now loadNow w) = loaded\<lparr>console := console loaded\<rparr>"
        using assms g True l by (simp add: checkAndReloadIfNeeded_def checked_def start_def)
      then show ?thesis by blast
    next
      case (Inr u)
      obtain q v where c: "checkAndReloadIfNeeded cql fs now loadNow w = (q, v)"
        by (cases "checkAndReloadIfNeeded cql fs now loadNow w")
      then have "\<exists>c. v = loaded\<lparr>console := c\<rparr>"
        using assms g True l Inr
        by (intro after_load_frame[of cql loaded q v])
           (simp add: checkAndReloadIfNeeded_def checked_def start_def)
      then show ?thesis using c by simp
    qed
    then show ?thesis using f by auto
  qed
qed

section \<open>Claim C8\<close>

lemma loaded_world_eq:
  "loaded_world =
     \<lparr>objects = (\<lambda>a. [])(0 := [(Some (JStr ''Old''), [(Some (JStr ''1.0.0''), elm ''Old'' ''1.0.0'' ''o'')])]),
      fresh = 1, repo = 0, librariesPath = Some ''/libs'', lastLoadTime = 5,
      lastCheckTime = 0, console = [], scans = 0\<rparr>"
  by (simp add: loaded_world_def load_def old_tree_def existsSync_def isDirectory_def readdirSync_def
      initial_world_def endsWith_def path_join_def addLibrary_adds elm_id elm_version stored_at_def
      Map_get_def)

lemma old_tree_modtime: "getLatestModTime old_tree ''/libs'' = (3, [])"
  by (simp add: getLatestModTime_def old_tree_def endsWith_def)

lemma checked_world_eq:
  "checked_world = loaded_world\<lparr>lastCheckTime := 10000, scans := 1\<rparr>"
  by (simp add: checked_world_def checkAndReloadIfNeeded_def loaded_world_eq old_tree_modtime
      CHECK_INTERVAL_MS_def)

text \<open>
  Claim C8 says that of every two calls within one check interval the second is a
  no-op. It is not when the first of them was itself held back by the rate limit: after
  a check at time 10000, the call at 10999 does nothing, and the call at 11000, one
  millisecond later, passes the rate limit and scans the tree again.
\<close>

theorem second_call_scans:
  "(11000::real) - 10999 < CHECK_INTERVAL_MS
   \<and> checkAndReloadIfNeeded quiet old_tree 10999 10999 checked_world = (Inr (), checked_world)
   \<and> checkAndReloadIfNeeded quiet old_tree 11000 11000
         (snd (checkAndReloadIfNeeded quiet old_tree 10999 10999 checked_world))
       = (Inr (), checked_world\<lparr>lastCheckTime := 11000, scans := 2\<rparr>)
   \<and> scans checked_world = 1"
  by (simp add: checkAndReloadIfNeeded_def checked_world_eq loaded_world_eq old_tree_modtime
      CHECK_INTERVAL_MS_def)

text \<open>
  Claim C8, as amended: \<^verbatim>\<open>checkAndReloadIfNeeded\<close> returns at once, leaving the world
  (the store and the count of scans included) as it was, when no path is registered
  (\<^verbatim>\<open>null\<close>, or the empty string) or less than the check interval has passed since the last
  check time. Hence two calls less than one check interval apart make at most one scan
  between them, and the second is a no-op whenever the first made a scan.
\<close>

theorem checkAndReloadIfNeeded_rate_limit:
  "(librariesPath w = None \<or> librariesPath w = Some [] \<or> now - lastCheckTime w < CHECK_INTERVAL_MS
      \<longrightarrow> checkAndReloadIfNeeded cql fs now loadNow w = (Inr (), w))
   \<and> (t2 - t1 < CHECK_INTERVAL_MS \<longrightarrow>
        scans (snd (checkAndReloadIfNeeded cql fs2 t2 l2 (snd (checkAndReloadIfNeeded cql fs1 t1 l1 w))))
          \<le> Suc (scans w)
        \<and> (scans (snd (checkAndReloadIfNeeded cql fs1 t1 l1 w)) = Suc (scans w) \<longrightarrow>
             checkAndReloadIfNeeded cql fs2 t2 l2 (snd (checkAndReloadIfNeeded cql fs1 t1 l1 w))
               = (Inr (), snd (checkAndReloadIfNeeded cql fs1 t1 l1 w))))"
proof -
  define w1 where "w1 = snd (checkAndReloadIfNeeded cql fs1 t1 l1 w)"
  have scans_le: "scans (snd (checkAndReloadIfNeeded cql f t l v)) \<le> Suc (scans v)" for f t l v
  proof (cases "librariesPath v = None \<or> librariesPath v = Some [] \<or> t - lastCheckTime v < CHECK_INTERVAL_MS")
    case True
    then show ?thesis using check_noop[OF True] by simp
  next
    case False
    then obtain path where "librariesPath v = Some path" "path \<noteq> []" by auto
    from check_scans[OF this, of t cql f l] False show ?thesis by simp
  qed
  have pair: "scans (snd (checkAndReloadIfNeeded cql fs2 t2 l2 w1)) \<le> Suc (scans w)
        \<and> (scans w1 = Suc (scans w) \<longrightarrow> checkAndReloadIfNeeded cql fs2 t2 l2 w1 = (Inr (), w1))"
    if close: "t2 - t1 < CHECK_INTERVAL_MS"
  proof (cases "librariesPath w = None \<or> librariesPath w = Some [] \<or> t1 - lastCheckTime w < CHECK_INTERVAL_MS")
    case True
    have "w1 = w" using check_noop[OF True] by (simp add: w1_def)
    then show ?thesis using scans_le[of fs2 t2 l2 w] by simp
  next
    case False
    then obtain path where p: "librariesPath w = Some path" "path \<noteq> []" by auto
    have c: "lastCheckTime w1 = t1" "scans w1 = Suc (scans w)"
      using check_scans[OF p, of t1 cql fs1 l1] False by (simp_all add: w1_def)
    have "checkAndReloadIfNeeded cql fs2 t2 l2 w1 = (Inr (), w1)"
      using check_noop[of w1 t2] close c by simp
    then show ?thesis using c by simp
  qed
  show ?thesis using check_noop[of w now cql fs loadNow] pair unfolding w1_def by blast
qed

theorem checkAndReloadIfNeeded_rate_limit_witness:
  "(500::real) - lastCheckTime loaded_world < CHECK_INTERVAL_MS
   \<and> checkAndReloadIfNeeded quiet new_tree 500 500 loaded_world = (Inr (), loaded_world)
   \<and> (10500::real) - 10000 < CHECK_INTERVAL_MS
   \<and> scans (snd (checkAndReloadIfNeeded quiet old_tree 10000 10000 loaded_world)) = Suc (scans loaded_world)
   \<and> checkAndReloadIfNeeded quiet new_tree 10500 10500
         (snd (checkAndReloadIfNeeded quiet old_tree 10000 10000 loaded_world))
       = (Inr (), snd (checkAndReloadIfNeeded quiet old_tree 10000 10000 loaded_world))"
proof -
  have a: "(500::real) - lastCheckTime loaded_world < CHECK_INTERVAL_MS"
    by (simp add: loaded_world_eq CHECK_INTERVAL_MS_def)
  have b: "(10500::real) - 10000 < CHECK_INTERVAL_MS"
    by (simp add: CHECK_INTERVAL_MS_def)
  have c: "scans (snd (checkAndReloadIfNeeded quiet old_tree 10000 10000 loaded_world)) = Suc (scans loaded_world)"
    using checked_world_eq by (simp add: checked_world_def loaded_world_eq)
  show ?thesis
    using checkAndReloadIfNeeded_rate_limit[of loaded_world 500 quiet new_tree 500 10500 10000 new_tree
        10500 old_tree 10000] a b c
    by simp
qed

section \<open>The order of semantic versions\<close>

lemma compareIdentifiers_refl: "compareIdentifiers a a = 0"
  by (cases a) auto

lemma compareIdentifiers_asym: "0 < compareIdentifiers a b \<Longrightarrow> \<not> 0 < compareIdentifiers b a"
  by (cases a; cases b) (auto split: if_splits)

lemma compareIdentifiers_trans:
  "0 < compareIdentifiers a b \<Longrightarrow> 0 < compareIdentifiers b c \<Longrightarrow> 0 < compareIdentifiers a c"
  by (cases a; cases b; cases c) (auto split: if_splits)

lemma comparePre_loop_refl: "comparePre_loop xs xs = 0"
  by (induction xs) auto

lemma comparePre_loop_trans:
  "0 < comparePre_loop xs ys \<Longrightarrow> 0 < comparePre_loop ys zs \<Longrightarrow> 0 < comparePre_loop xs zs"
proof (induction xs arbitrary: ys zs)
  case Nil
  then show ?case by (cases ys) auto
next
  case (Cons a as)
  show ?case
  proof (cases ys)
    case Nil
    then show ?thesis using Cons.prems by (cases zs) auto
  next
    case ys: (Cons b bs)
    show ?thesis
    proof (cases zs)
      case Nil then show ?thesis by simp
    next
      case zs: (Cons c cs)
      show ?thesis
      proof (cases "a = b")
        case True
        show ?thesis
        proof (cases "b = c")
          case bc: True
          then show ?thesis using Cons.IH[of bs cs] Cons.prems True ys zs by simp
        next
          case False
          then show ?thesis using Cons.prems True ys zs by simp
        qed
      next
        case ab: False
        show ?thesis
        proof (cases "b = c")
          case True
          then show ?thesis using Cons.prems ab ys zs by simp
        next
          case False
          have 1: "0 < compareIdentifiers a b" and 2: "0 < compareIdentifiers b c"
            using Cons.prems ab False ys zs by simp_all
          have "a \<noteq> c" using 1 2 compareIdentifiers_asym by blast
          then show ?thesis using compareIdentifiers_trans[OF 1 2] ys zs by simp
        qed
      qed
    qed
  qed
qed

lemma comparePre_refl: "comparePre a a = 0"
  by (simp add: comparePre_def comparePre_loop_refl)

lemma comparePre_trans:
  "0 < comparePre a b \<Longrightarrow> 0 < comparePre b c \<Longrightarrow> 0 < comparePre a c"
  using comparePre_loop_trans[of "prerelease a" "prerelease b" "prerelease c"]
  by (auto simp: comparePre_def split: if_splits)

lemma compareMain_zero:
  "compareMain a b = 0 \<longleftrightarrow> major a = major b \<and> minor a = minor b \<and> patch a = patch b"
  by (auto simp: compareMain_def or_else_def compareNumbers_def)

lemma compareMain_trans:
  "0 < compareMain a b \<Longrightarrow> 0 < compareMain b c \<Longrightarrow> 0 < compareMain a c"
  by (auto simp: compareMain_def or_else_def compareNumbers_def split: if_splits)

lemma compareMain_cong:
  "compareMain a b = 0 \<Longrightarrow> compareMain a c = compareMain b c"
  "compareMain b c = 0 \<Longrightarrow> compareMain a b = compareMain a c"
  by (auto simp: compareMain_def or_else_def compareNumbers_def split: if_splits)

lemma SemVer_compare_refl: "SemVer_compare a a = 0"
  by (simp add: SemVer_compare_def or_else_def comparePre_refl compareMain_zero)

lemma SemVer_compare_trans:
  assumes "0 < SemVer_compare a b" "0 < SemVer_compare b c"
  shows "0 < SemVer_compare a c"
proof (cases "compareMain a b = 0")
  case ab: True
  then have pab: "0 < comparePre a b" using assms(1) by (simp add: SemVer_compare_def or_else_def)
  show ?thesis
  proof (cases "compareMain b c = 0")
    case True
    then have "0 < comparePre b c" using assms(2) by (simp add: SemVer_compare_def or_else_def)
    from comparePre_trans[OF pab this] ab True show ?thesis
      by (simp add: SemVer_compare_def or_else_def compareMain_zero)
  next
    case False
    then have "0 < compareMain b c" using assms(2) by (simp add: SemVer_compare_def or_else_def)
    then have "0 < compareMain a c" using compareMain_cong(1)[OF ab, of c] by simp
    then show ?thesis by (simp add: SemVer_compare_def or_else_def)
  qed
next
  case ab: False
  then have mab: "0 < compareMain a b" using assms(1) by (simp add: SemVer_compare_def or_else_def)
  show ?thesis
  proof (cases "compareMain b c = 0")
    case True
    then have "0 < compareMain a c" using compareMain_cong(2)[OF True, of a] mab by simp
    then show ?thesis by (simp add: SemVer_compare_def or_else_def)
  next
    case False
    then have "0 < compareMain b c" using assms(2) by (simp add: SemVer_compare_def or_else_def)
    from compareMain_trans[OF mab this] show ?thesis by (simp add: SemVer_compare_def or_else_def)
  qed
qed

lemma valid_not_nullish: "valid v \<Longrightarrow> \<not> nullish v"
  by (cases v rule: new_SemVer.cases) (auto simp: valid_def)

lemma semver_gt_valid:
  "valid a \<Longrightarrow> valid b \<Longrightarrow> \<exists>r. semver_gt a b = Inr r"
  by (auto simp: valid_def semver_gt_def split: sum.splits)

lemma semver_gt_irrefl: "valid a \<Longrightarrow> semver_gt a a = Inr False"
  by (auto simp: valid_def semver_gt_def SemVer_compare_refl split: sum.splits)

lemma semver_gt_trans:
  "semver_gt a b = Inr True \<Longrightarrow> semver_gt b c = Inr True \<Longrightarrow> semver_gt a c = Inr True"
  using SemVer_compare_trans by (auto simp: semver_gt_def split: sum.splits)

lemma latest_of_maximal:
  assumes "\<forall>v\<in>set vs. valid v" "valid l" "\<forall>u\<in>S. valid u \<and> semver_gt u l = Inr False"
  shows "\<exists>m. latest_of vs l = Inr m \<and> m \<in> set (l # vs)
            \<and> (\<forall>u\<in>S \<union> set (l # vs). semver_gt u m = Inr False)"
  using assms
proof (induction vs arbitrary: l S)
  case Nil
  then show ?case using semver_gt_irrefl by auto
next
  case (Cons v vs)
  have vv: "valid v" and vl: "valid l" using Cons.prems by auto
  obtain r where r: "semver_gt v l = Inr r" using semver_gt_valid[OF vv vl] by blast
  have nl: "\<not> nullish l" using valid_not_nullish[OF vl] .
  show ?case
  proof (cases r)
    case True
    have step: "latest_of (v # vs) l = latest_of vs v" using r True nl by simp
    have inv: "\<forall>u\<in>S \<union> {l}. valid u \<and> semver_gt u v = Inr False"
    proof
      fix u assume u: "u \<in> S \<union> {l}"
      have vu: "valid u" using u Cons.prems vl by auto
      obtain q where q: "semver_gt u v = Inr q" using semver_gt_valid[OF vu vv] by blast
      have "\<not> q"
      proof
        assume q
        then have "semver_gt u l = Inr True" using semver_gt_trans[of u v l] q r True by simp
        then show False using u Cons.prems(3) semver_gt_irrefl[OF vl] by auto
      qed
      then show "valid u \<and> semver_gt u v = Inr False" using vu q by simp
    qed
    from Cons.IH[of v "S \<union> {l}"] Cons.prems(1) vv inv
    obtain m where m: "latest_of vs v = Inr m" "m \<in> set (v # vs)"
      "\<forall>u\<in>(S \<union> {l}) \<union> set (v # vs). semver_gt u m = Inr False" by auto
    then show ?thesis using step by auto
  next
    case False
    have step: "latest_of (v # vs) l = latest_of vs l" using r False nl by simp
    have inv: "\<forall>u\<in>S \<union> {v}. valid u \<and> semver_gt u l = Inr False"
      using Cons.prems(3) vv r False by auto
    from Cons.IH[of l "S \<union> {v}"] Cons.prems(1) vl inv
    obtain m where m: "latest_of vs l = Inr m" "m \<in> set (l # vs)"
      "\<forall>u\<in>(S \<union> {v}) \<union> set (l # vs). semver_gt u m = Inr False" by auto
    then show ?thesis using step by auto
  qed
qed

lemma Map_get_key: "k \<in> set (Map_keys m) \<Longrightarrow> \<exists>v. Map_get k m = Some v"
  by (induction m) (auto simp: Map_keys_def Map_get_def)

lemma Map_key_get: "Map_get k m = Some v \<Longrightarrow> k \<in> set (Map_keys m)"
  by (induction m) (auto simp: Map_keys_def Map_get_def split: if_splits)

section \<open>Claim C5\<close>

lemma plain_versions_store:
  "objects plain_versions 0 =
     [(Some (JStr ''X''),
       [(Some (JStr ''1''), elm ''X'' ''1'' ''a''), (Some (JStr ''2''), elm ''X'' ''2'' ''b'')])]"
  by (simp add: plain_versions_def addLibrary_adds elm_id elm_version initial_world_def Map_get_def)

text \<open>
  Claim C5 says that \<^verbatim>\<open>resolveLatest\<close> returns the document of the greatest version for
  every id that has versions stored. \<^verbatim>\<open>semver.gt\<close> raises TypeError when a version it is
  given is not a semantic version, and nothing in \<^verbatim>\<open>resolveLatest\<close> catches it: in the
  repository that holds X in the versions 1 and 2, \<^verbatim>\<open>resolveLatest('X')\<close> raises
  TypeError and returns no document.
\<close>

theorem resolveLatest_rejects_plain_versions:
  "stored_at 0 (Some (JStr ''X'')) (Some (JStr ''1'')) plain_versions = Some (elm ''X'' ''1'' ''a'')
   \<and> stored_at 0 (Some (JStr ''X'')) (Some (JStr ''2'')) plain_versions = Some (elm ''X'' ''2'' ''b'')
   \<and> resolveLatest quiet 3 0 (Some (JStr ''X'')) plain_versions = (Inl TypeError, plain_versions)"
  by (simp add: numeral_3_eq_3 stored_at_def plain_versions_store Map_get_def Map_size_def Map_keys_def
      semver_eval)

text \<open>
  Claim C5, as amended: for every id, a primitive value, that has versions stored, all
  of them valid semantic versions (their numeric pre-release identifiers at most
  2^53 - 1), \<^verbatim>\<open>resolveLatest(id)\<close>, on a call stack that takes two more frames, gives the engine's
  constructor a document stored under a version that no stored version is greater
  than, by \<^verbatim>\<open>semver.gt\<close>, and its result is the constructor's: the library of that
  document, or what the constructor raises, the lines that the constructor has printed
  added to the console. In that order a version with a higher major.minor.patch is
  greater whatever the pre-release tags, and with the same major.minor.patch a release
  is greater than a pre-release.
\<close>

theorem resolveLatest_maximal:
  assumes "\<exists>v. stored_at this id' v w \<noteq> None"
    and "\<forall>v. stored_at this id' v w \<noteq> None \<longrightarrow> valid v"
    and "2 \<le> depth"
    and "primitive id'"
  shows "(\<exists>latest json.
            stored_at this id' latest w = Some json
            \<and> (\<forall>v. stored_at this id' v w \<noteq> None \<longrightarrow> semver_gt v latest = Inr False)
            \<and> resolveLatest cql depth this id' w =
                (case cql json this w of
                   (None, printed) \<Rightarrow>
                     (Inr (Some (Library json this)), w\<lparr>console := console w @ printed\<rparr>)
                 | (Some e, printed) \<Rightarrow> (Inl e, w\<lparr>console := console w @ printed\<rparr>)))
       \<and> (\<forall>u v a b. new_SemVer u = Inr a \<and> new_SemVer v = Inr b \<and> 0 < compareMain a b
             \<longrightarrow> semver_gt u v = Inr True)
       \<and> (\<forall>u v a b. new_SemVer u = Inr a \<and> new_SemVer v = Inr b \<and> compareMain a b = 0
               \<and> prerelease a = [] \<and> prerelease b \<noteq> []
             \<longrightarrow> semver_gt u v = Inr True)"
proof -
  obtain d where d: "depth = Suc (Suc d)"
    using assms(3) by (metis Suc_le_D numeral_2_eq_2 Suc_le_mono)
  obtain versions where vs: "Map_get id' (objects w this) = Some versions"
    using assms(1) by (auto simp: stored_at_def split: option.splits)
  have st: "stored_at this id' v w = Map_get v versions" for v
    by (simp add: stored_at_def vs)
  obtain k ks where ks: "Map_keys versions = k # ks"
    using assms(1) by (cases versions) (auto simp: st Map_keys_def Map_get_def)
  have size: "Map_size versions > 0"
    using ks by (cases versions) (auto simp: Map_keys_def Map_size_def)
  have keys: "\<forall>v\<in>set (Map_keys versions). valid v"
    using assms(2) Map_get_key[of _ versions] by (auto simp: st)
  have vk: "valid k" and vks: "\<forall>v\<in>set ks. valid v" using keys ks by auto
  have first: "latest_of (Map_keys versions) None = latest_of ks k" using ks by simp
  from latest_of_maximal[OF vks vk, of "{}"]
  obtain m where m: "latest_of ks k = Inr m" "m \<in> set (k # ks)"
    "\<forall>u\<in>set (k # ks). semver_gt u m = Inr False" by auto
  have "valid m" using m(2) vk vks by auto
  then have nm: "\<not> nullish m" by (rule valid_not_nullish)
  obtain json where json: "Map_get m versions = Some json"
    using Map_get_key[of m versions] m(2) ks by auto
  have r: "resolveLatest cql depth this id' w =
             (case cql json this w of
                (None, printed) \<Rightarrow>
                  (Inr (Some (Library json this)), w\<lparr>console := console w @ printed\<rparr>)
              | (Some e, printed) \<Rightarrow> (Inl e, w\<lparr>console := console w @ printed\<rparr>))"
    unfolding d using vs size first m(1) nm json
    by (simp add: new_Library_def split: prod.splits option.splits)
  have top: "\<forall>v. stored_at this id' v w \<noteq> None \<longrightarrow> semver_gt v m = Inr False"
    using m(3) ks Map_key_get[of _ versions] by (auto simp: st)
  have a: "\<exists>latest json.
            stored_at this id' latest w = Some json
            \<and> (\<forall>v. stored_at this id' v w \<noteq> None \<longrightarrow> semver_gt v latest = Inr False)
            \<and> resolveLatest cql depth this id' w =
                (case cql json this w of
                   (None, printed) \<Rightarrow>
                     (Inr (Some (Library json this)), w\<lparr>console := console w @ printed\<rparr>)
                 | (Some e, printed) \<Rightarrow> (Inl e, w\<lparr>console := console w @ printed\<rparr>))"
    using json top r by (auto simp: st)
  have b: "\<forall>u v a b. new_SemVer u = Inr a \<and> new_SemVer v = Inr b \<and> 0 < compareMain a b
           \<longrightarrow> semver_gt u v = Inr True"
    by (auto simp: semver_gt_def SemVer_compare_def or_else_def)
  have c: "\<forall>u v a b. new_SemVer u = Inr a \<and> new_SemVer v = Inr b \<and> compareMain a b = 0
             \<and> prerelease a = [] \<and> prerelease b \<noteq> []
           \<longrightarrow> semver_gt u v = Inr True"
    by (auto simp: semver_gt_def SemVer_compare_def or_else_def comparePre_def)
  show ?thesis using a b c by blast
qed

lemma three_versions_valid:
  "valid (Some (JStr ''1.0.0''))" "valid (Some (JStr ''2.0.0-beta''))" "valid (Some (JStr ''1.2.0''))"
  by (simp_all add: valid_def semver_eval)

lemma three_versions_stored:
  "stored_at 0 (Some (JStr ''X'')) v three_versions =
     (if v = Some (JStr ''1.0.0'') then Some (elm ''X'' ''1.0.0'' ''a'')
      else if v = Some (JStr ''2.0.0-beta'') then Some (elm ''X'' ''2.0.0-beta'' ''b'')
      else if v = Some (JStr ''1.2.0'') then Some (elm ''X'' ''1.2.0'' ''c'')
      else None)"
  by (simp add: stored_at_def three_versions_store Map_get_def)

theorem resolveLatest_maximal_witness:
  "stored_at 0 (Some (JStr ''X'')) (Some (JStr ''1.0.0'')) three_versions = Some (elm ''X'' ''1.0.0'' ''a'')
   \<and> stored_at 0 (Some (JStr ''X'')) (Some (JStr ''2.0.0-beta'')) three_versions
       = Some (elm ''X'' ''2.0.0-beta'' ''b'')
   \<and> stored_at 0 (Some (JStr ''X'')) (Some (JStr ''1.2.0'')) three_versions = Some (elm ''X'' ''1.2.0'' ''c'')
   \<and> valid (Some (JStr ''1.0.0'')) \<and> valid (Some (JStr ''2.0.0-beta'')) \<and> valid (Some (JStr ''1.2.0''))
   \<and> (2::nat) \<le> 3 \<and> primitive (Some (JStr ''X''))
   \<and> semver_gt (Some (JStr ''1.0.0'')) (Some (JStr ''2.0.0-beta'')) = Inr False
   \<and> semver_gt (Some (JStr ''1.2.0'')) (Some (JStr ''2.0.0-beta'')) = Inr False
   \<and> resolveLatest quiet 3 0 (Some (JStr ''X'')) three_versions
       = (Inr (Some (Library (elm ''X'' ''2.0.0-beta'' ''b'') 0)), three_versions)
   \<and> resolveLatest (with_include (Some (JStr ''FHIRHelpers'')) (Some (JStr ''4.0.1''))) 3 0
         (Some (JStr ''X'')) three_versions
       = (Inr (Some (Library (elm ''X'' ''2.0.0-beta'' ''b'') 0)),
          three_versions\<lparr>console :=
            [Console_error (Failed_to_resolve_library (Some (JStr ''FHIRHelpers'')) (Some (JStr ''4.0.1'')))]\<rparr>)
   \<and> resolveLatest rejecting 3 0 (Some (JStr ''X'')) three_versions = (Inl TypeError, three_versions)
   \<and> semver_gt (Some (JStr ''2.0.0-beta'')) (Some (JStr ''1.2.0'')) = Inr True
   \<and> semver_gt (Some (JStr ''2.0.0'')) (Some (JStr ''2.0.0-beta'')) = Inr True"
proof -
  have h1: "\<exists>v. stored_at 0 (Some (JStr ''X'')) v three_versions \<noteq> None"
    by (rule exI[of _ "Some (JStr ''1.0.0'')"]) (simp add: three_versions_stored)
  have h2: "\<forall>v. stored_at 0 (Some (JStr ''X'')) v three_versions \<noteq> None \<longrightarrow> valid v"
    using three_versions_valid by (simp add: three_versions_stored)
  have h3: "(2::nat) \<le> 3" by simp
  have h4: "primitive (Some (JStr ''X''))" by simp
  have g0: "semver_gt (Some (JStr ''2.0.0-beta'')) (Some (JStr ''1.0.0'')) = Inr True"
    and g1: "semver_gt (Some (JStr ''2.0.0-beta'')) (Some (JStr ''1.2.0'')) = Inr True"
    and g2: "semver_gt (Some (JStr ''2.0.0'')) (Some (JStr ''2.0.0-beta'')) = Inr True"
    and g3: "semver_gt (Some (JStr ''1.0.0'')) (Some (JStr ''2.0.0-beta'')) = Inr False"
    and g4: "semver_gt (Some (JStr ''1.2.0'')) (Some (JStr ''2.0.0-beta'')) = Inr False"
    by (simp_all add: semver_eval)
  have latest: "resolveLatest cql 3 0 (Some (JStr ''X'')) three_versions =
      (case cql (elm ''X'' ''2.0.0-beta'' ''b'') 0 three_versions of
         (None, printed) \<Rightarrow>
           (Inr (Some (Library (elm ''X'' ''2.0.0-beta'' ''b'') 0)),
            three_versions\<lparr>console := console three_versions @ printed\<rparr>)
       | (Some e, printed) \<Rightarrow> (Inl e, three_versions\<lparr>console := console three_versions @ printed\<rparr>))"
    for cql
  proof -
    from conjunct1[OF resolveLatest_maximal[OF h1 h2 h3 h4, of cql]]
    obtain latest json where s: "stored_at 0 (Some (JStr ''X'')) latest three_versions = Some json"
      and top: "\<forall>v. stored_at 0 (Some (JStr ''X'')) v three_versions \<noteq> None
                  \<longrightarrow> semver_gt v latest = Inr False"
      and r: "resolveLatest cql 3 0 (Some (JStr ''X'')) three_versions =
                (case cql json 0 three_versions of
                   (None, printed) \<Rightarrow>
                     (Inr (Some (Library json 0)), three_versions\<lparr>console := console three_versions @ printed\<rparr>)
                 | (Some e, printed) \<Rightarrow>
                     (Inl e, three_versions\<lparr>console := console three_versions @ printed\<rparr>))"
      by blast
    have "semver_gt (Some (JStr ''2.0.0-beta'')) latest = Inr False"
      using top by (simp add: three_versions_stored)
    then have "latest = Some (JStr ''2.0.0-beta'')"
      using s g0 g1 by (auto simp: three_versions_stored split: if_splits)
    then have j: "json = elm ''X'' ''2.0.0-beta'' ''b''"
      using s by (simp add: three_versions_stored)
    show ?thesis unfolding r j by (rule refl)
  qed
  have miss: "resolve quiet 2 0 (Some (JStr ''FHIRHelpers'')) (Some (JStr ''4.0.1'')) three_versions =
      (Inr None, three_versions\<lparr>console :=
         [Console_error (Failed_to_resolve_library (Some (JStr ''FHIRHelpers'')) (Some (JStr ''4.0.1'')))]\<rparr>)"
    by (simp add: numeral_2_eq_2 three_versions_store three_versions_console Map_get_def)
  show ?thesis
    using latest[of quiet] latest[of "with_include (Some (JStr ''FHIRHelpers'')) (Some (JStr ''4.0.1''))"]
      latest[of rejecting] three_versions_valid g1 g2 g3 g4 miss
    by (simp add: three_versions_stored three_versions_console quiet_def with_include_def rejecting_def)
qed

section \<open>Claim C10\<close>

lemma new_SemVer_error: "new_SemVer v = Inl e \<Longrightarrow> e = TypeError"
  by (cases v rule: new_SemVer.cases)
     (auto simp: parse_def Let_def split: if_splits list.splits prod.splits)

lemma latest_of_raises:
  assumes "\<not> nullish l" "\<forall>v\<in>set vs. \<not> nullish v"
    and "(\<not> parses l \<and> vs \<noteq> []) \<or> (\<exists>v\<in>set vs. \<not> parses v)"
  shows "latest_of vs l = Inl TypeError"
  using assms
proof (induction vs arbitrary: l)
  case Nil
  then show ?case by simp
next
  case (Cons v vs)
  show ?case
  proof (cases "semver_gt v l")
    case (Inl e)
    then have "e = TypeError" using new_SemVer_error by (auto simp: semver_gt_def split: sum.splits)
    then show ?thesis using Inl Cons.prems(1) by simp
  next
    case (Inr r)
    then have vv: "parses v" and vl: "parses l" by (auto simp: semver_gt_def parses_def split: sum.splits)
    then have rest: "\<exists>u\<in>set vs. \<not> parses u" using Cons.prems(3) by auto
    have "latest_of vs (if r then v else l) = Inl TypeError"
      using Cons.IH[of "if r then v else l"] Cons.prems(1,2) rest by auto
    then show ?thesis using Inr Cons.prems(1) by simp
  qed
qed

text \<open>
  Claim C10: \<^verbatim>\<open>resolveLatest\<close> does not return for every store. Whenever an id has two
  versions or more, none of them \<^verbatim>\<open>null\<close> or \<^verbatim>\<open>undefined\<close>, and one of them is not a
  valid semantic version, the comparison raises TypeError and \<^verbatim>\<open>resolveLatest\<close> lets
  it through: the call returns neither a library nor \<^verbatim>\<open>undefined\<close>. The repository
  that holds X in the versions 1.0.0 and 1.0 is such a store.
\<close>

theorem resolveLatest_raises_on_invalid_version:
  assumes "Map_get id' (objects w this) = Some versions"
    and "2 \<le> Map_size versions"
    and "\<forall>v\<in>set (Map_keys versions). \<not> nullish v"
    and "\<exists>v\<in>set (Map_keys versions). \<not> parses v"
    and "1 \<le> depth"
  shows "resolveLatest cql depth this id' w = (Inl TypeError, w)"
proof -
  obtain d where d: "depth = Suc d" using assms(5) by (cases depth) auto
  obtain k k' ks where ks: "Map_keys versions = k # k' # ks"
    using assms(2) by (cases versions; cases "tl versions") (auto simp: Map_keys_def Map_size_def)
  have "latest_of (Map_keys versions) None = latest_of (k' # ks) k" using ks by simp
  also have "\<dots> = Inl TypeError"
    using latest_of_raises[of k "k' # ks"] assms(3,4) ks by auto
  finally show ?thesis unfolding d using assms(1,2) by simp
qed

lemma invalid_version_world_store:
  "objects invalid_version_world 0 =
     [(Some (JStr ''X''),
       [(Some (JStr ''1.0.0''), elm ''X'' ''1.0.0'' ''a''), (Some (JStr ''1.0''), elm ''X'' ''1.0'' ''b'')])]"
  by (simp add: invalid_version_world_def addLibrary_adds elm_id elm_version initial_world_def Map_get_def)

theorem resolveLatest_raises_on_invalid_version_witness:
  "Map_get (Some (JStr ''X'')) (objects invalid_version_world 0)
     = Some [(Some (JStr ''1.0.0''), elm ''X'' ''1.0.0'' ''a''), (Some (JStr ''1.0''), elm ''X'' ''1.0'' ''b'')]
   \<and> \<not> nullish (Some (JStr ''1.0.0'')) \<and> \<not> nullish (Some (JStr ''1.0''))
   \<and> \<not> parses (Some (JStr ''1.0''))
   \<and> (1::nat) \<le> 1
   \<and> resolveLatest quiet 1 0 (Some (JStr ''X'')) invalid_version_world = (Inl TypeError, invalid_version_world)"
proof -
  have h1: "Map_get (Some (JStr ''X'')) (objects invalid_version_world 0)
     = Some [(Some (JStr ''1.0.0''), elm ''X'' ''1.0.0'' ''a''), (Some (JStr ''1.0''), elm ''X'' ''1.0'' ''b'')]"
    by (simp add: invalid_version_world_store Map_get_def)
  have h2: "2 \<le> Map_size [(Some (JStr ''1.0.0''), elm ''X'' ''1.0.0'' ''a''),
                              (Some (JStr ''1.0''), elm ''X'' ''1.0'' ''b'')]"
    by (simp add: Map_size_def)
  have h3: "\<forall>v\<in>set (Map_keys [(Some (JStr ''1.0.0''), elm ''X'' ''1.0.0'' ''a''),
                                     (Some (JStr ''1.0''), elm ''X'' ''1.0'' ''b'')]). \<not> nullish v"
    by (simp add: Map_keys_def)
  have nv: "\<not> parses (Some (JStr ''1.0''))"
    by (simp add: parses_def semver_eval)
  have h4: "\<exists>v\<in>set (Map_keys [(Some (JStr ''1.0.0''), elm ''X'' ''1.0.0'' ''a''),
                                     (Some (JStr ''1.0''), elm ''X'' ''1.0'' ''b'')]). \<not> parses v"
    using nv by (simp add: Map_keys_def)
  have h5: "(1::nat) \<le> 1" by simp
  show ?thesis
    using resolveLatest_raises_on_invalid_version[OF h1 h2 h3 h4 h5, of quiet] h1 nv by simp
qed

section \<open>Reloading\<close>

lemma states_of_nonempty: "states_of a ds w \<noteq> []"
  by (induction a ds w rule: states_of.induct) auto

lemma states_of_last: "last (states_of a ds w) = snd (add_all a ds w)"
  by (induction a ds w rule: states_of.induct) (auto simp: states_of_nonempty)

lemma states_of_frame:
  "s \<in> set (states_of a ds w) \<Longrightarrow>
     repo s = repo w \<and> fresh s = fresh w \<and> (\<forall>b. b \<noteq> a \<longrightarrow> objects s b = objects w b)"
  by (induction a ds w rule: states_of.induct) (auto simp: addLibrary_frame)

lemma states_of_first: "states_of a ds w ! 0 = w"
  by (cases "(a, ds, w)" rule: states_of.cases) auto

lemma states_of_step:
  "Suc i < length (states_of a ds w) \<Longrightarrow>
     \<exists>json. states_of a ds w ! Suc i = addLibrary a json (states_of a ds w ! i)"
proof (induction a ds w arbitrary: i rule: states_of.induct)
  case (1 this w)
  then show ?case by simp
next
  case (2 this e rest w)
  then show ?case by simp
next
  case (3 this json rest w)
  show ?case
  proof (cases i)
    case 0
    show ?thesis using 0 by (auto simp: states_of_first)
  next
    case (Suc k)
    then show ?thesis using 3 by simp
  qed
qed

lemma add_all_documents:
  "add_all a (map Inr docs @ Inl e # rest) w = (Inl e, fold (addLibrary a) docs w)"
  by (induction docs arbitrary: w) auto

lemma addLibrary_objects_cong:
  assumes "objects w1 a = objects w2 a"
  shows "objects (addLibrary a j w1) a = objects (addLibrary a j w2) a"
  using assms
  by (cases "truthy (identifier_id j)") (simp_all add: addLibrary_adds addLibrary_ignores stored_at_def)

lemma fold_addLibrary_objects_cong:
  "objects w1 a = objects w2 a \<Longrightarrow>
     objects (fold (addLibrary a) docs w1) a = objects (fold (addLibrary a) docs w2) a"
proof (induction docs arbitrary: w1 w2)
  case Nil
  then show ?case by simp
next
  case (Cons j docs)
  have "objects (addLibrary a j w1) a = objects (addLibrary a j w2) a"
    using Cons.prems by (rule addLibrary_objects_cong)
  from Cons.IH[OF this] show ?case by simp
qed

lemma reload_start_fields:
  assumes "librariesPath w = Some path"
  shows "repo (reload_start fs now w) = fresh w"
    and "fresh (reload_start fs now w) = Suc (fresh w)"
    and "objects (reload_start fs now w) = (objects w)(fresh w := [])"
  using assms by (auto simp: reload_start_def reset_def Let_def split: prod.splits)

lemma check_reloads:
  assumes "reloads fs now w" "librariesPath w = Some path"
  shows "checkAndReloadIfNeeded cql fs now loadNow w =
      (case load fs loadNow path True (reload_start fs now w) of
         (Inl e, loaded) \<Rightarrow> (Inl e, loaded)
       | (Inr u, loaded) \<Rightarrow>
           (case all cql (repo loaded) loaded of
              (Inl e, counted) \<Rightarrow> (Inl e, counted)
            | (Inr libraries, counted) \<Rightarrow>
                (case all cql (repo counted)
                        (counted\<lparr>console := console counted
                           @ [Console_log (Reloaded_libraries (length libraries))]\<rparr>) of
                   (Inl e, listed) \<Rightarrow> (Inl e, listed)
                 | (Inr libraries', listed) \<Rightarrow>
                     (Inr (),
                      listed\<lparr>console := console listed
                         @ map (\<lambda>lib. Console_log
                                  (Reloaded_library (identifier_id (source lib))
                                     (identifier_version (source lib))))
                             libraries'\<rparr>))))"
proof -
  obtain t printed where g: "getLatestModTime fs path = (t, printed)"
    by (cases "getLatestModTime fs path")
  have c: "path \<noteq> []" "\<not> now - lastCheckTime w < CHECK_INTERVAL_MS" "t > lastLoadTime w"
    using assms g by (simp_all add: reloads_def)
  show ?thesis
    by (simp add: checkAndReloadIfNeeded_def reload_start_def assms(2) g c Let_def)
qed

text \<open>A reload leaves the stores and \<open>repo\<close> as its \<^verbatim>\<open>load\<close> leaves them.\<close>

lemma check_reloads_frame:
  assumes "reloads fs now w" "librariesPath w = Some path"
    and "load fs loadNow path True (reload_start fs now w) = (r, loaded)"
  shows "objects (snd (checkAndReloadIfNeeded cql fs now loadNow w)) = objects loaded"
    and "repo (snd (checkAndReloadIfNeeded cql fs now loadNow w)) = repo loaded"
proof -
  have "\<exists>c. snd (checkAndReloadIfNeeded cql fs now loadNow w) = loaded\<lparr>console := c\<rparr>"
  proof (cases r)
    case (Inl e)
    then have "snd (checkAndReloadIfNeeded cql fs now loadNow w) = loaded\<lparr>console := console loaded\<rparr>"
      using check_reloads[OF assms(1,2), of cql loadNow] assms(3) by simp
    then show ?thesis by blast
  next
    case (Inr u)
    obtain q v where c: "checkAndReloadIfNeeded cql fs now loadNow w = (q, v)"
      by (cases "checkAndReloadIfNeeded cql fs now loadNow w")
    then have "\<exists>c. v = loaded\<lparr>console := c\<rparr>"
      using check_reloads[OF assms(1,2), of cql loadNow] assms(3) Inr
      by (intro after_load_frame[of cql loaded q v]) simp
    then show ?thesis using c by simp
  qed
  then show "objects (snd (checkAndReloadIfNeeded cql fs now loadNow w)) = objects loaded"
    and "repo (snd (checkAndReloadIfNeeded cql fs now loadNow w)) = repo loaded"
    by auto
qed

lemma load_directory:
  assumes "fs path = Some (Dir mtimeMs entries)"
  shows "load fs loadNow path True v =
           add_all (repo v) (visited path entries) (v\<lparr>librariesPath := Some path, lastLoadTime := loadNow\<rparr>)"
  by (simp add: load_def existsSync_def isDirectory_def readdirSync_def assms load_entries_visited)

lemma reload_states_directory:
  assumes "librariesPath w = Some path" "fs path = Some (Dir mtimeMs entries)"
  shows "reload_states fs now loadNow w =
           reload_start fs now w
           # states_of (fresh w) (visited path entries)
               ((reload_start fs now w)\<lparr>librariesPath := Some path, lastLoadTime := loadNow\<rparr>)"
  by (simp add: reload_states_def assms readdirSync_def reload_start_fields(1)[OF assms(1)])

lemma loaded_world_fields:
  "objects loaded_world
     = (\<lambda>a. [])(0 := [(Some (JStr ''Old''), [(Some (JStr ''1.0.0''), elm ''Old'' ''1.0.0'' ''o'')])])"
  "fresh loaded_world = 1" "repo loaded_world = 0" "librariesPath loaded_world = Some ''/libs''"
  "lastLoadTime loaded_world = 5" "lastCheckTime loaded_world = 0" "console loaded_world = []"
  "scans loaded_world = 0"
  by (simp_all add: loaded_world_eq)

lemma new_tree_modtime: "getLatestModTime new_tree ''/libs'' = (10, [])"
  by (simp add: getLatestModTime_def new_tree_def endsWith_def)

lemma broken_tree_modtime: "getLatestModTime broken_tree ''/libs'' = (10, [])"
  by (simp add: getLatestModTime_def broken_tree_def endsWith_def)

lemma new_tree_reloads: "reloads new_tree 2000 loaded_world"
  by (simp add: reloads_def loaded_world_fields new_tree_modtime CHECK_INTERVAL_MS_def)

lemma broken_tree_reloads: "reloads broken_tree 2000 loaded_world"
  by (simp add: reloads_def loaded_world_fields broken_tree_modtime CHECK_INTERVAL_MS_def)

lemma new_tree_libs:
  "new_tree ''/libs'' =
     Some (Dir 10 [(''a.json'', File 10 (Inr (elm ''A'' ''1.0.0'' ''a''))),
                   (''notes.txt'', File 10 (Inl SyntaxError)),
                   (''b.json'', File 10 (Inr (elm ''B'' ''1.0.0'' ''b'')))])"
  by (simp add: new_tree_def)

lemma broken_tree_libs:
  "broken_tree ''/libs'' =
     Some (Dir 10 [(''a.json'', File 10 (Inr (elm ''A'' ''1.0.0'' ''a''))),
                   (''b.json'', File 10 (Inl SyntaxError)),
                   (''c.json'', File 10 (Inr (elm ''C'' ''1.0.0'' ''c'')))])"
  by (simp add: broken_tree_def)

lemma new_tree_visited:
  "visited ''/libs'' [(''a.json'', File 10 (Inr (elm ''A'' ''1.0.0'' ''a''))),
                      (''notes.txt'', File 10 (Inl SyntaxError)),
                      (''b.json'', File 10 (Inr (elm ''B'' ''1.0.0'' ''b'')))]
     = [Inr (elm ''A'' ''1.0.0'' ''a''), Inr (elm ''B'' ''1.0.0'' ''b'')]"
  by (simp add: endsWith_def path_join_def)

lemma broken_tree_visited:
  "visited ''/libs'' [(''a.json'', File 10 (Inr (elm ''A'' ''1.0.0'' ''a''))),
                      (''b.json'', File 10 (Inl SyntaxError)),
                      (''c.json'', File 10 (Inr (elm ''C'' ''1.0.0'' ''c'')))]
     = map Inr [elm ''A'' ''1.0.0'' ''a''] @ Inl SyntaxError # [Inr (elm ''C'' ''1.0.0'' ''c'')]"
  by (simp add: endsWith_def path_join_def)

lemmas reload_eval =
  reload_start_fields[OF loaded_world_fields(4)] loaded_world_fields get_def
  addLibrary_adds addLibrary_frame elm_id elm_version stored_at_def Map_get_def endsWith_def path_join_def

lemma new_tree_states:
  "map (\<lambda>s. objects s (get s)) (reload_states new_tree 2000 2000 loaded_world) =
     [[], [],
      [(Some (JStr ''A''), [(Some (JStr ''1.0.0''), elm ''A'' ''1.0.0'' ''a'')])],
      [(Some (JStr ''A''), [(Some (JStr ''1.0.0''), elm ''A'' ''1.0.0'' ''a'')]),
       (Some (JStr ''B''), [(Some (JStr ''1.0.0''), elm ''B'' ''1.0.0'' ''b'')])]]"
  by (simp add: reload_states_directory[where fs = new_tree, OF loaded_world_fields(4) new_tree_libs]
      new_tree_visited reload_eval)

lemma new_tree_reloaded:
  "objects (snd (checkAndReloadIfNeeded quiet new_tree 2000 2000 loaded_world))
         (get (snd (checkAndReloadIfNeeded quiet new_tree 2000 2000 loaded_world)))
       = [(Some (JStr ''A''), [(Some (JStr ''1.0.0''), elm ''A'' ''1.0.0'' ''a'')]),
          (Some (JStr ''B''), [(Some (JStr ''1.0.0''), elm ''B'' ''1.0.0'' ''b'')])]"
  by (simp add: check_reloads[OF new_tree_reloads loaded_world_fields(4)]
      load_directory[where fs = new_tree, OF new_tree_libs] new_tree_visited reload_eval
      all_def Map_values_def new_Library_def quiet_def)

lemma broken_tree_reloaded:
  "fst (checkAndReloadIfNeeded quiet broken_tree 2000 2000 loaded_world) = Inl SyntaxError"
  "objects (snd (checkAndReloadIfNeeded quiet broken_tree 2000 2000 loaded_world))
         (get (snd (checkAndReloadIfNeeded quiet broken_tree 2000 2000 loaded_world)))
       = [(Some (JStr ''A''), [(Some (JStr ''1.0.0''), elm ''A'' ''1.0.0'' ''a'')])]"
  by (simp_all add: check_reloads[OF broken_tree_reloads loaded_world_fields(4)]
      load_directory[where fs = broken_tree, OF broken_tree_libs] broken_tree_visited reload_eval)

section \<open>Claim C2\<close>

text \<open>
  Claim C2 says that the replacement store is fully built before \<^verbatim>\<open>get()\<close> gives it,
  so that a reader sees the old store or the new one, complete. \<^verbatim>\<open>reset()\<close> assigns the
  new, empty instance to \<open>repo\<close> before \<^verbatim>\<open>load\<close> has read anything. In the reload of
  the loaded world (which holds Old) onto the new tree (which holds A and B), the
  store that \<^verbatim>\<open>get()\<close> gives is empty after \<^verbatim>\<open>reset()\<close>, holds A alone after the first
  file, and holds A and B when the reload returns.
\<close>

theorem reload_publishes_before_it_builds:
  "reloads new_tree 2000 loaded_world
   \<and> objects loaded_world (get loaded_world)
       = [(Some (JStr ''Old''), [(Some (JStr ''1.0.0''), elm ''Old'' ''1.0.0'' ''o'')])]
   \<and> map (\<lambda>s. objects s (get s)) (reload_states new_tree 2000 2000 loaded_world) =
       [[], [],
        [(Some (JStr ''A''), [(Some (JStr ''1.0.0''), elm ''A'' ''1.0.0'' ''a'')])],
        [(Some (JStr ''A''), [(Some (JStr ''1.0.0''), elm ''A'' ''1.0.0'' ''a'')]),
         (Some (JStr ''B''), [(Some (JStr ''1.0.0''), elm ''B'' ''1.0.0'' ''b'')])]]
   \<and> objects (snd (checkAndReloadIfNeeded quiet new_tree 2000 2000 loaded_world))
         (get (snd (checkAndReloadIfNeeded quiet new_tree 2000 2000 loaded_world)))
       = [(Some (JStr ''A''), [(Some (JStr ''1.0.0''), elm ''A'' ''1.0.0'' ''a'')]),
          (Some (JStr ''B''), [(Some (JStr ''1.0.0''), elm ''B'' ''1.0.0'' ''b'')])]"
  using new_tree_reloads new_tree_states new_tree_reloaded
  by (simp add: loaded_world_fields get_def)

text \<open>
  Claim C2, as amended: in every reload of a directory, the store published before
  is never mutated: in every world the reload passes through, the old instance holds
  what it held. The replacement is not built before it is visible: from \<^verbatim>\<open>reset()\<close> on
  \<^verbatim>\<open>get()\<close> gives the new instance, which is empty at first and to which \<^verbatim>\<open>load\<close> adds
  the documents in place, one call of \<^verbatim>\<open>addLibrary\<close> after the other; the last of these
  worlds holds the stores that the call leaves, so \<^verbatim>\<open>get()\<close> gives the complete new store
  once the reload has returned.
\<close>

theorem reload_fills_published_store:
  assumes "reloads fs now w"
    and "librariesPath w = Some path"
    and "fs path = Some (Dir mtimeMs entries)"
    and "get w < fresh w"
  shows "(\<forall>s\<in>set (reload_states fs now loadNow w).
            get s = fresh w \<and> objects s (get w) = objects w (get w))
       \<and> fresh w \<noteq> get w
       \<and> objects (hd (reload_states fs now loadNow w)) (fresh w) = []
       \<and> (\<forall>i. Suc (Suc i) < length (reload_states fs now loadNow w) \<longrightarrow>
            (\<exists>json. reload_states fs now loadNow w ! Suc (Suc i)
                      = addLibrary (fresh w) json (reload_states fs now loadNow w ! Suc i)))
       \<and> objects (snd (checkAndReloadIfNeeded cql fs now loadNow w))
           = objects (last (reload_states fs now loadNow w))
       \<and> get (snd (checkAndReloadIfNeeded cql fs now loadNow w)) = fresh w"
proof -
  define start where "start = reload_start fs now w"
  define tracked where "tracked = start\<lparr>librariesPath := Some path, lastLoadTime := loadNow\<rparr>"
  define tail where "tail = states_of (fresh w) (visited path entries) tracked"
  have s: "repo start = fresh w" "objects start = (objects w)(fresh w := [])"
    using reload_start_fields[OF assms(2)] by (simp_all add: start_def)
  have states: "reload_states fs now loadNow w = start # tail"
    using reload_states_directory[where fs = fs and path = path, OF assms(2,3)] by (simp add: start_def tracked_def tail_def)
  have ne: "fresh w \<noteq> get w" using assms(4) by simp
  have t: "repo tracked = fresh w" "objects tracked = (objects w)(fresh w := [])"
    using s by (simp_all add: tracked_def)
  have frame: "get s = fresh w \<and> objects s (get w) = objects w (get w)"
    if "s \<in> set (start # tail)" for s
  proof (cases "s = start")
    case True
    then show ?thesis using s ne by (simp add: get_def)
  next
    case False
    then have "s \<in> set (states_of (fresh w) (visited path entries) tracked)"
      using that by (simp add: tail_def)
    from states_of_frame[OF this] show ?thesis using t ne by (simp add: get_def)
  qed
  have step: "\<exists>json. (start # tail) ! Suc (Suc i) = addLibrary (fresh w) json ((start # tail) ! Suc i)"
    if "Suc (Suc i) < length (start # tail)" for i
    using states_of_step[of i "fresh w" "visited path entries" tracked] that by (simp add: tail_def)
  obtain r loaded where l: "load fs loadNow path True start = (r, loaded)"
    by (cases "load fs loadNow path True start")
  have "loaded = snd (add_all (fresh w) (visited path entries) tracked)"
    using load_directory[where fs = fs and path = path, OF assms(3), of loadNow start] l s(1)
    by (metis snd_conv tracked_def)
  then have last: "loaded = last (start # tail)"
    by (simp add: tail_def states_of_last states_of_nonempty)
  have fin: "objects (snd (checkAndReloadIfNeeded cql fs now loadNow w)) = objects loaded
           \<and> repo (snd (checkAndReloadIfNeeded cql fs now loadNow w)) = repo loaded"
    using check_reloads_frame[OF assms(1,2), of loadNow r loaded cql] l by (simp add: start_def)
  have "loaded \<in> set (start # tail)"
    using last by (metis last_in_set list.distinct(1))
  then have "get loaded = fresh w" using frame by blast
  then have g: "get (snd (checkAndReloadIfNeeded cql fs now loadNow w)) = fresh w"
    using fin by (simp add: get_def)
  have e: "objects (hd (start # tail)) (fresh w) = []" using s(2) by simp
  show ?thesis
    unfolding states using frame ne e step fin last g by auto
qed

theorem reload_fills_published_store_witness:
  "reloads new_tree 2000 loaded_world
   \<and> librariesPath loaded_world = Some ''/libs''
   \<and> get loaded_world < fresh loaded_world
   \<and> get (snd (checkAndReloadIfNeeded quiet new_tree 2000 2000 loaded_world)) = fresh loaded_world
   \<and> objects (hd (reload_states new_tree 2000 2000 loaded_world)) (fresh loaded_world) = []
   \<and> objects (snd (checkAndReloadIfNeeded quiet new_tree 2000 2000 loaded_world))
       = objects (last (reload_states new_tree 2000 2000 loaded_world))
   \<and> objects (last (reload_states new_tree 2000 2000 loaded_world)) (get loaded_world)
       = objects loaded_world (get loaded_world)"
proof -
  have h4: "get loaded_world < fresh loaded_world"
    by (simp add: get_def loaded_world_fields)
  have ne: "reload_states new_tree 2000 2000 loaded_world \<noteq> []"
    by (simp add: reload_states_directory[where fs = new_tree, OF loaded_world_fields(4) new_tree_libs])
  then have l: "last (reload_states new_tree 2000 2000 loaded_world)
                  \<in> set (reload_states new_tree 2000 2000 loaded_world)"
    by (rule last_in_set)
  show ?thesis
    using reload_fills_published_store[where fs = new_tree and cql = quiet, OF new_tree_reloads
        loaded_world_fields(4) new_tree_libs h4, of 2000] new_tree_reloads loaded_world_fields(4) h4 l
    by blast
qed

section \<open>Claim C3\<close>

text \<open>
  Claim C3 says that a reload in which a file fails to parse leaves the store
  published before live. Nothing catches the error, and \<^verbatim>\<open>reset()\<close> has run by then: in
  the reload of the loaded world (which holds Old) onto the broken tree, whose second
  file is malformed, the call raises SyntaxError and \<^verbatim>\<open>get()\<close> then gives a store that
  holds A alone, the document of the first file.
\<close>

theorem failed_reload_replaces_live_store:
  "reloads broken_tree 2000 loaded_world
   \<and> fst (checkAndReloadIfNeeded quiet broken_tree 2000 2000 loaded_world) = Inl SyntaxError
   \<and> objects loaded_world (get loaded_world)
       = [(Some (JStr ''Old''), [(Some (JStr ''1.0.0''), elm ''Old'' ''1.0.0'' ''o'')])]
   \<and> objects (snd (checkAndReloadIfNeeded quiet broken_tree 2000 2000 loaded_world))
         (get (snd (checkAndReloadIfNeeded quiet broken_tree 2000 2000 loaded_world)))
       = [(Some (JStr ''A''), [(Some (JStr ''1.0.0''), elm ''A'' ''1.0.0'' ''a'')])]"
  using broken_tree_reloads broken_tree_reloaded
  by (simp add: loaded_world_fields get_def)

text \<open>
  Claim C3, as amended: in every reload of a directory in which a file fails to parse
  (or a directory cannot be listed), the error is raised to the caller of
  \<^verbatim>\<open>checkAndReloadIfNeeded\<close>. The store published before is not modified, and it is no
  longer the published one: \<^verbatim>\<open>get()\<close> gives the new instance that \<^verbatim>\<open>reset()\<close> made, which
  holds the documents that were added before the failure, and no others.
\<close>

theorem failed_reload_publishes_partial_store:
  assumes "reloads fs now w"
    and "librariesPath w = Some path"
    and "fs path = Some (Dir mtimeMs entries)"
    and "visited path entries = map Inr docs @ Inl e # rest"
    and "get w < fresh w"
  shows "fst (checkAndReloadIfNeeded cql fs now loadNow w) = Inl e
       \<and> get (snd (checkAndReloadIfNeeded cql fs now loadNow w)) = fresh w
       \<and> fresh w \<noteq> get w
       \<and> objects (snd (checkAndReloadIfNeeded cql fs now loadNow w)) (get w) = objects w (get w)
       \<and> objects (snd (checkAndReloadIfNeeded cql fs now loadNow w)) (fresh w)
           = objects (fold (addLibrary (fresh w)) docs (reset w)) (fresh w)"
proof -
  define start where "start = reload_start fs now w"
  define tracked where "tracked = start\<lparr>librariesPath := Some path, lastLoadTime := loadNow\<rparr>"
  define w' where "w' = fold (addLibrary (fresh w)) docs tracked"
  have s: "repo start = fresh w" "objects start = (objects w)(fresh w := [])"
    using reload_start_fields[OF assms(2)] by (simp_all add: start_def)
  have l: "load fs loadNow path True start = (Inl e, w')"
    using load_directory[where fs = fs and path = path, OF assms(3), of loadNow start] s(1)
    by (simp add: assms(4) add_all_documents tracked_def w'_def)
  have c: "checkAndReloadIfNeeded cql fs now loadNow w = (Inl e, w')"
    using check_reloads[OF assms(1,2), of cql loadNow] l by (simp add: start_def)
  have a: "add_all (fresh w) (map Inr docs @ Inl e # rest) tracked = (Inl e, w')"
    by (simp add: add_all_documents w'_def)
  have f: "repo w' = fresh w" "\<forall>b. b \<noteq> fresh w \<longrightarrow> objects w' b = objects tracked b"
    using add_all_frame[OF a] s(1) by (simp_all add: tracked_def)
  have ne: "fresh w \<noteq> get w" using assms(5) by simp
  have old: "objects w' (get w) = objects w (get w)"
    using f(2) ne s(2) by (simp add: tracked_def)
  have "objects tracked (fresh w) = objects (reset w) (fresh w)"
    using s(2) by (simp add: tracked_def reset_def)
  then have new: "objects w' (fresh w) = objects (fold (addLibrary (fresh w)) docs (reset w)) (fresh w)"
    unfolding w'_def by (rule fold_addLibrary_objects_cong)
  show ?thesis using c f(1) ne old new by (simp add: get_def)
qed

theorem failed_reload_publishes_partial_store_witness:
  "reloads broken_tree 2000 loaded_world
   \<and> librariesPath loaded_world = Some ''/libs''
   \<and> get loaded_world < fresh loaded_world
   \<and> fst (checkAndReloadIfNeeded quiet broken_tree 2000 2000 loaded_world) = Inl SyntaxError
   \<and> get (snd (checkAndReloadIfNeeded quiet broken_tree 2000 2000 loaded_world)) = fresh loaded_world
   \<and> objects (snd (checkAndReloadIfNeeded quiet broken_tree 2000 2000 loaded_world)) (get loaded_world)
       = objects loaded_world (get loaded_world)
   \<and> objects (snd (checkAndReloadIfNeeded quiet broken_tree 2000 2000 loaded_world)) (fresh loaded_world)
       = objects (fold (addLibrary (fresh loaded_world)) [elm ''A'' ''1.0.0'' ''a''] (reset loaded_world))
           (fresh loaded_world)"
proof -
  have h5: "get loaded_world < fresh loaded_world"
    by (simp add: get_def loaded_world_fields)
  show ?thesis
    using failed_reload_publishes_partial_store[where fs = broken_tree and cql = quiet,
        OF broken_tree_reloads loaded_world_fields(4) broken_tree_libs broken_tree_visited h5, of 2000]
      broken_tree_reloads loaded_world_fields(4) h5
    by blast
qed

end
